theory Spec2Isabelle
  imports Complex_Main "HOL-Library.Sublist"
begin

section \<open>Python values, exceptions and string helpers\<close>

text \<open>
  The stored run records are read with \<^verbatim>\<open>json.loads\<close>, so every value that
  \<^verbatim>\<open>load_sessions_history\<close> looks at is a decoded JSON value: \<^verbatim>\<open>None\<close>, a bool,
  an int, a float, a str, a list or a dict. A dict is the list of its items (keys are
  strings, the first item of a key is the one looked up). A \<open>char\<close> stands for one
  code point below 256. A float is the rational number it denotes: the rounding of
  binary64 arithmetic, \<^verbatim>\<open>nan\<close> and the infinities are outside the model.
\<close>

datatype json =
    JNull
  | JBool bool
  | JInt int
  | JFloat rat
  | JStr string
  | JArr "json list"
  | JObj "(string \<times> json) list"

text \<open>The exceptions (all subclasses of \<^verbatim>\<open>Exception\<close>) that the modelled code can meet.\<close>

datatype exn =
    KeyError
  | TypeError
  | AttributeError
  | IndexError
  | JSONDecodeError
  | DatabaseError
  | AgentError

text \<open>
  Sequencing of two computations that may raise: the second runs on the result of
  the first, an exception of the first is the exception of the whole.
\<close>

definition then_do :: "exn + 'a \<Rightarrow> ('a \<Rightarrow> exn + 'b) \<Rightarrow> exn + 'b" where
  "then_do m f = (case m of Inl e \<Rightarrow> Inl e | Inr x \<Rightarrow> f x)"

text \<open>Truth value of a decoded value, as \<^verbatim>\<open>if not x\<close> and \<^verbatim>\<open>if x\<close> test it.\<close>

fun truthy :: "json \<Rightarrow> bool" where
  "truthy JNull = False"
| "truthy (JBool b) = b"
| "truthy (JInt i) = (i \<noteq> 0)"
| "truthy (JFloat r) = (r \<noteq> 0)"
| "truthy (JStr s) = (s \<noteq> [])"
| "truthy (JArr xs) = (xs \<noteq> [])"
| "truthy (JObj kvs) = (kvs \<noteq> [])"

text \<open>\<^verbatim>\<open>d.get(k, default)\<close>: only a dict has the method.\<close>

fun dict_get :: "json \<Rightarrow> string \<Rightarrow> json \<Rightarrow> exn + json" where
  "dict_get (JObj kvs) k d = Inr (case map_of kvs k of None \<Rightarrow> d | Some v \<Rightarrow> v)"
| "dict_get _ k d = Inl AttributeError"

text \<open>\<^verbatim>\<open>d[k]\<close> with a string key: a missing key raises, and so does a non-dict.\<close>

fun dict_item :: "json \<Rightarrow> string \<Rightarrow> exn + json" where
  "dict_item (JObj kvs) k = (case map_of kvs k of None \<Rightarrow> Inl KeyError | Some v \<Rightarrow> Inr v)"
| "dict_item _ k = Inl TypeError"

text \<open>\<^verbatim>\<open>for x in v\<close>: a list gives its elements, a dict its keys, a str its characters.\<close>

fun py_iter :: "json \<Rightarrow> exn + json list" where
  "py_iter (JArr xs) = Inr xs"
| "py_iter (JObj kvs) = Inr (map (\<lambda>kv. JStr (fst kv)) kvs)"
| "py_iter (JStr s) = Inr (map (\<lambda>c. JStr [c]) s)"
| "py_iter _ = Inl TypeError"

text \<open>
  Keys of a dict or members of a set are compared by hash and \<^verbatim>\<open>==\<close>: \<^verbatim>\<open>True\<close>,
  \<^verbatim>\<open>1\<close> and \<^verbatim>\<open>1.0\<close> are one key, a list or a dict is unhashable.
\<close>

datatype hkey = KNone | KNum rat | KStr string

fun hash_key :: "json \<Rightarrow> exn + hkey" where
  "hash_key JNull = Inr KNone"
| "hash_key (JBool b) = Inr (KNum (if b then 1 else 0))"
| "hash_key (JInt i) = Inr (KNum (of_int i))"
| "hash_key (JFloat r) = Inr (KNum r)"
| "hash_key (JStr s) = Inr (KStr s)"
| "hash_key (JArr xs) = Inl TypeError"
| "hash_key (JObj kvs) = Inl TypeError"

text \<open>\<^verbatim>\<open>a - b\<close> is defined on numbers (a bool counts as 0 or 1).\<close>

fun py_number :: "json \<Rightarrow> exn + rat" where
  "py_number (JBool b) = Inr (if b then 1 else 0)"
| "py_number (JInt i) = Inr (of_int i)"
| "py_number (JFloat r) = Inr r"
| "py_number _ = Inl TypeError"

definition py_sub :: "json \<Rightarrow> json \<Rightarrow> exn + rat" where
  "py_sub a b =
     then_do (py_number a) (\<lambda>x.
     then_do (py_number b) (\<lambda>y. Inr (x - y)))"

text \<open>Decimal digits of a natural number.\<close>

function dec :: "nat \<Rightarrow> string" where
  "dec n = (if n < 10 then [''0123456789'' ! n]
            else dec (n div 10) @ [''0123456789'' ! (n mod 10)])"
  by pat_completeness auto
termination
  by (relation "measure id") auto

declare dec.simps [simp del]

text \<open>
  The format specifications \<^verbatim>\<open>.3f\<close> and \<^verbatim>\<open>.4f\<close>: the value rounded to \<open>p\<close>
  decimals, a tie going to the even neighbour, with the sign of the value. Python
  converts the value to binary64 first: the rounding of that conversion, the negative
  zero and the \<^verbatim>\<open>OverflowError\<close> of an int beyond the range of binary64 are outside
  the model.
\<close>

definition round_half_even :: "rat \<Rightarrow> int" where
  "round_half_even x =
     (let f = \<lfloor>x\<rfloor>; d = x - of_int f
      in if d < 1 / 2 then f else if 1 / 2 < d then f + 1
         else if even f then f else f + 1)"

definition format_f :: "nat \<Rightarrow> rat \<Rightarrow> string" where
  "format_f p x =
     (let n = nat (round_half_even (\<bar>x\<bar> * 10 ^ p));
          ip = dec (n div 10 ^ p);
          fp = dec (n mod 10 ^ p)
      in (if x < 0 then ''-'' else '''') @ ip @ ''.''
           @ replicate (p - length fp) CHR ''0'' @ fp)"

text \<open>\<^verbatim>\<open>str.strip()\<close> removes the white space at both ends.\<close>

definition py_isspace :: "char \<Rightarrow> bool" where
  "py_isspace c =
     (let n = of_char c :: nat
      in (9 \<le> n \<and> n \<le> 13) \<or> (28 \<le> n \<and> n \<le> 32) \<or> n = 133 \<or> n = 160)"

definition strip :: "string \<Rightarrow> string" where
  "strip s = rev (dropWhile py_isspace (rev (dropWhile py_isspace s)))"

text \<open>\<^verbatim>\<open>sep.join(parts)\<close>.\<close>

fun join :: "string \<Rightarrow> string list \<Rightarrow> string" where
  "join sep [] = []"
| "join sep [s] = s"
| "join sep (s # t # ts) = s @ sep @ join sep (t # ts)"

text \<open>
  \<^verbatim>\<open>str(v)\<close>, which is also what an f-string field \<^verbatim>\<open>{v}\<close> inserts. The text of a
  float, a list or a dict (Python's \<^verbatim>\<open>repr\<close>) is the parameter \<open>R\<close>.
\<close>

definition str_of :: "(json \<Rightarrow> string) \<Rightarrow> json \<Rightarrow> string" where
  "str_of R v =
     (case v of
        JNull \<Rightarrow> ''None''
      | JBool b \<Rightarrow> (if b then ''True'' else ''False'')
      | JInt i \<Rightarrow> (if i < 0 then ''-'' else '''') @ dec (nat \<bar>i\<bar>)
      | JStr s \<Rightarrow> s
      | _ \<Rightarrow> R v)"

section \<open>The transcript entries\<close>

text \<open>
  A \<^verbatim>\<open>ChatMessage\<close> has a role, a content and optional metadata, whose only key is
  the title; the title is one of two markers. The pictograph in front of the marker is
  left out: its bytes differ between the two modules, and no statement below rests on
  the titles of the live path and of the batch path being the same.
\<close>

datatype title = ToolCallStarted | ToolCallCompleted

record ChatMessage =
  role :: string
  content :: json
  metadata :: "title option"

section \<open>Batch reconstruction: \<^verbatim>\<open>load_sessions_history\<close>\<close>

text \<open>
  \<^verbatim>\<open>tool_times\<close> maps a tool call id to its pair of start and end time stamps,
  \<^verbatim>\<open>None\<close> (\<open>JNull\<close>) until an event sets it.
\<close>

type_synonym tool_times = "hkey \<Rightarrow> (json \<times> json) option"

text \<open>The body of \<^verbatim>\<open>for event in events\<close> (lines 166 to 175).\<close>

definition event_step :: "tool_times \<Rightarrow> json \<Rightarrow> exn + tool_times" where
  "event_step tt event =
     then_do (dict_get event ''tool'' (JObj [])) (\<lambda>tool.
     then_do (dict_get tool ''tool_call_id'' JNull) (\<lambda>tool_call_id.
       if \<not> truthy tool_call_id then Inr tt
       else
         then_do (hash_key tool_call_id) (\<lambda>k.
         let times = (case tt k of None \<Rightarrow> (JNull, JNull) | Some p \<Rightarrow> p) in
         then_do (dict_item event ''event'') (\<lambda>ev.
           if ev = JStr ''ToolCallStarted'' then
             then_do (dict_item event ''created_at'') (\<lambda>t.
               Inr (tt(k \<mapsto> (t, snd times))))
           else if ev = JStr ''ToolCallCompleted'' then
             then_do (dict_item event ''created_at'') (\<lambda>t.
               Inr (tt(k \<mapsto> (fst times, t))))
           else Inr (tt(k \<mapsto> times))))))"

fun build_tool_times :: "tool_times \<Rightarrow> json list \<Rightarrow> exn + tool_times" where
  "build_tool_times tt [] = Inr tt"
| "build_tool_times tt (event # events) =
     then_do (event_step tt event) (\<lambda>tt'. build_tool_times tt' events)"

text \<open>The execution time shown for a tool message (lines 186 to 191).\<close>

definition exec_time_of :: "tool_times \<Rightarrow> json \<Rightarrow> exn + string" where
  "exec_time_of tt tool_call_id =
     then_do (hash_key tool_call_id) (\<lambda>k.
       case tt k of
         None \<Rightarrow> Inr ''N/A''
       | Some (start, finish) \<Rightarrow>
           if start \<noteq> JNull \<and> finish \<noteq> JNull then
             then_do (py_sub finish start) (\<lambda>d. Inr (format_f 3 d @ ''s''))
           else Inr ''N/A'')"

text \<open>The result text of a tool message (lines 206 to 210).\<close>

definition result_text_of :: "(json \<Rightarrow> string) \<Rightarrow> json \<Rightarrow> string" where
  "result_text_of R c =
     (let s = (case c of
                 JArr items \<Rightarrow>
                   join ''\<newline>'' (map (\<lambda>item. strip (str_of R item)) (filter truthy items))
               | JStr s \<Rightarrow> s
               | _ \<Rightarrow> str_of R c)
      in if s \<noteq> [] then strip s else [])"

definition custom_content_started :: "(json \<Rightarrow> string) \<Rightarrow> json \<Rightarrow> json \<Rightarrow> string" where
  "custom_content_started R name args =
     ''\<newline>**Tool:** `'' @ str_of R name @ ''`\<newline>**Arguments:** `''
       @ str_of R args @ ''`\<newline>''"

definition custom_content_completed :: "string \<Rightarrow> string \<Rightarrow> string" where
  "custom_content_completed result_text exec_time =
     ''**Results:**\<newline>'' @ result_text @ ''\<newline>**Execution time:** '' @ exec_time"

text \<open>
  The first part of the body of \<^verbatim>\<open>for msg in messages\<close> (lines 178 to 227): what
  the message appends to the history.
\<close>

definition msg_step ::
  "(json \<Rightarrow> string) \<Rightarrow> string \<Rightarrow> tool_times \<Rightarrow> ChatMessage list \<Rightarrow> json
     \<Rightarrow> exn + ChatMessage list" where
  "msg_step R chat_event_metadata_radio tt h msg =
     then_do (dict_get msg ''role'' JNull) (\<lambda>role_v.
     then_do (dict_get msg ''content'' (JStr '''')) (\<lambda>content_v.
     then_do (dict_get msg ''tool_name'' JNull) (\<lambda>name.
     then_do (dict_get msg ''tool_args'' JNull) (\<lambda>args.
     then_do (dict_get msg ''tool_call_id'' JNull) (\<lambda>tool_call_id.
       if chat_event_metadata_radio = ''ON'' \<and> role_v = JStr ''tool'' then
         then_do (exec_time_of tt tool_call_id) (\<lambda>exec_time.
           Inr (h @
             [\<lparr>role = ''assistant'',
               content = JStr (custom_content_started R name args),
               metadata = Some ToolCallStarted\<rparr>,
              \<lparr>role = ''assistant'',
               content = JStr (custom_content_completed
                                 (result_text_of R content_v) exec_time),
               metadata = Some ToolCallCompleted\<rparr>]))
       else if role_v = JStr ''user'' then
         Inr (h @
           [\<lparr>role = ''user'',
             content = (if content_v \<noteq> JNull then content_v else JStr ''''),
             metadata = None\<rparr>])
       else if role_v = JStr ''assistant'' then
         Inr (h @
           [\<lparr>role = ''assistant'',
             content = (if content_v \<noteq> JNull then content_v else JStr ''''),
             metadata = None\<rparr>])
       else Inr h)))))"

text \<open>
  \<^verbatim>\<open>msg.content += " "\<close>: a str gets one more character, a list one more element
  (the one character of the string), anything else raises.
\<close>

fun iadd_space :: "json \<Rightarrow> exn + json" where
  "iadd_space (JStr s) = Inr (JStr (s @ '' ''))"
| "iadd_space (JArr xs) = Inr (JArr (xs @ [JStr '' '']))"
| "iadd_space _ = Inl TypeError"

text \<open>
  The loop of lines 231 to 234 over \<^verbatim>\<open>reversed(chat_history)\<close>; the argument is
  the reversed list.
\<close>

fun latex_trigger_rev :: "ChatMessage list \<Rightarrow> exn + ChatMessage list" where
  "latex_trigger_rev [] = Inr []"
| "latex_trigger_rev (m # ms) =
     (if role m = ''assistant'' then
        then_do (iadd_space (content m)) (\<lambda>c. Inr (m\<lparr>content := c\<rparr> # ms))
      else
        then_do (latex_trigger_rev ms) (\<lambda>ms'. Inr (m # ms')))"

definition latex_trigger :: "ChatMessage list \<Rightarrow> exn + ChatMessage list" where
  "latex_trigger h = then_do (latex_trigger_rev (rev h)) (\<lambda>ms. Inr (rev ms))"

text \<open>The whole body of \<^verbatim>\<open>for msg in messages\<close> (lines 178 to 234), and the loop.\<close>

definition msg_body ::
  "(json \<Rightarrow> string) \<Rightarrow> string \<Rightarrow> string \<Rightarrow> tool_times \<Rightarrow> ChatMessage list \<Rightarrow> json
     \<Rightarrow> exn + ChatMessage list" where
  "msg_body R chat_event_metadata_radio latex_mode_radio tt h msg =
     then_do (msg_step R chat_event_metadata_radio tt h msg) (\<lambda>h'.
       if latex_mode_radio = ''ON'' then latex_trigger h' else Inr h')"

fun msg_loop ::
  "(json \<Rightarrow> string) \<Rightarrow> string \<Rightarrow> string \<Rightarrow> tool_times \<Rightarrow> ChatMessage list \<Rightarrow> json list
     \<Rightarrow> exn + ChatMessage list" where
  "msg_loop R mr lr tt h [] = Inr h"
| "msg_loop R mr lr tt h (msg # msgs) =
     then_do (msg_body R mr lr tt h msg) (\<lambda>h'. msg_loop R mr lr tt h' msgs)"

text \<open>The body of \<^verbatim>\<open>for run in runs\<close> (lines 160 to 234), and the loop.\<close>

definition run_body ::
  "(json \<Rightarrow> string) \<Rightarrow> string \<Rightarrow> string \<Rightarrow> ChatMessage list \<Rightarrow> json
     \<Rightarrow> exn + ChatMessage list" where
  "run_body R mr lr h run =
     then_do (dict_get run ''messages'' (JArr [])) (\<lambda>messages.
     then_do (dict_get run ''events'' (JArr [])) (\<lambda>events.
     then_do (py_iter events) (\<lambda>evs.
     then_do (build_tool_times Map.empty evs) (\<lambda>tt.
     then_do (py_iter messages) (\<lambda>msgs.
       msg_loop R mr lr tt h msgs)))))"

fun run_loop ::
  "(json \<Rightarrow> string) \<Rightarrow> string \<Rightarrow> string \<Rightarrow> ChatMessage list \<Rightarrow> json list
     \<Rightarrow> exn + ChatMessage list" where
  "run_loop R mr lr h [] = Inr h"
| "run_loop R mr lr h (run # runs) =
     then_do (run_body R mr lr h run) (\<lambda>h'. run_loop R mr lr h' runs)"

text \<open>
  The removal of duplicates (lines 237 to 243): \<^verbatim>\<open>seen\<close> is a set of pairs
  \<^verbatim>\<open>(msg.role, msg.content)\<close>; hashing the pair raises on a list or a dict.
\<close>

fun dedupe_loop ::
  "(string \<times> hkey) set \<Rightarrow> ChatMessage list \<Rightarrow> ChatMessage list
     \<Rightarrow> exn + ChatMessage list" where
  "dedupe_loop seen unique_history [] = Inr unique_history"
| "dedupe_loop seen unique_history (msg # msgs) =
     then_do (hash_key (content msg)) (\<lambda>k.
       if (role msg, k) \<notin> seen
       then dedupe_loop (insert (role msg, k) seen) (unique_history @ [msg]) msgs
       else dedupe_loop seen unique_history msgs)"

definition dedupe :: "ChatMessage list \<Rightarrow> exn + ChatMessage list" where
  "dedupe h = dedupe_loop {} [] h"

text \<open>
  Lines 157 to 243, on the decoded value \<^verbatim>\<open>memory\<close>: the loop over the runs, then
  the removal of duplicates.
\<close>

definition reconstruct ::
  "(json \<Rightarrow> string) \<Rightarrow> string \<Rightarrow> string \<Rightarrow> json \<Rightarrow> exn + ChatMessage list" where
  "reconstruct R mr lr memory =
     then_do (py_iter memory) (\<lambda>runs.
     then_do (run_loop R mr lr [] runs) (\<lambda>h. dedupe h))"

text \<open>
  \<^verbatim>\<open>json.loads\<close> needs a str; what it makes of the text is the parameter \<open>loads\<close>.
\<close>

definition json_loads :: "(string \<Rightarrow> exn + json) \<Rightarrow> json \<Rightarrow> exn + json" where
  "json_loads loads v = (case v of JStr s \<Rightarrow> loads s | _ \<Rightarrow> Inl TypeError)"

text \<open>
  The \<^verbatim>\<open>try\<close> block (lines 138 to 245). \<open>fetched\<close> is what the query gives: a
  database error, no row (\<open>None\<close>), or the value of the column \<^verbatim>\<open>runs\<close> of the
  row. The second component of the result is the height of the container.
\<close>

definition load_try ::
  "(string \<Rightarrow> exn + json) \<Rightarrow> (json \<Rightarrow> string) \<Rightarrow> exn + json option \<Rightarrow> string \<Rightarrow> string
     \<Rightarrow> exn + ChatMessage list \<times> nat" where
  "load_try loads R fetched chat_event_metadata_radio latex_mode_radio =
     then_do fetched (\<lambda>result.
       case result of
         None \<Rightarrow> Inr ([], 350)
       | Some col \<Rightarrow>
           if \<not> truthy col then Inr ([], 350)
           else
             then_do (json_loads loads col) (\<lambda>inner.
             then_do (json_loads loads inner) (\<lambda>memory.
             then_do (reconstruct R chat_event_metadata_radio latex_mode_radio memory)
               (\<lambda>unique_history. Inr (unique_history, 650)))))"

text \<open>The function: both \<^verbatim>\<open>except\<close> clauses return the empty history.\<close>

definition load_sessions_history ::
  "(string \<Rightarrow> exn + json) \<Rightarrow> (json \<Rightarrow> string) \<Rightarrow> exn + json option \<Rightarrow> string \<Rightarrow> string
     \<Rightarrow> ChatMessage list \<times> nat" where
  "load_sessions_history loads R fetched chat_event_metadata_radio latex_mode_radio =
     (case load_try loads R fetched chat_event_metadata_radio latex_mode_radio of
        Inl e \<Rightarrow> ([], 350)
      | Inr r \<Rightarrow> r)"

section \<open>Live path: \<^verbatim>\<open>get_response\<close>\<close>

text \<open>
  What the agent hands over while it streams: the kind of the event, the run id, the
  tool execution (tool events carry one) and the content. The metrics of a tool
  execution are absent, or hold a duration that may be \<^verbatim>\<open>None\<close>.
\<close>

datatype run_event = tool_call_started | tool_call_completed | run_content | other_event

record tool_execution =
  tool_name :: json
  tool_args :: json
  result :: json
  metrics :: "rat option option"

record chunk =
  event :: run_event
  run_id :: string
  tool :: "tool_execution option"
  chunk_content :: json

text \<open>
  The local state of the generator, and what one \<^verbatim>\<open>yield\<close> shows: whether the
  text box is interactive, the history, and whether the stop button is visible.
\<close>

record stream_state =
  chat_history :: "ChatMessage list"
  stream_response :: string

record snapshot =
  interactive :: bool
  shown :: "ChatMessage list"
  stop_visible :: bool

definition assistant_msg :: "string \<Rightarrow> ChatMessage" where
  "assistant_msg s = \<lparr>role = ''assistant'', content = JStr s, metadata = None\<rparr>"

definition user_entry :: "string \<Rightarrow> ChatMessage" where
  "user_entry s = \<lparr>role = ''user'', content = JStr s, metadata = None\<rparr>"

definition placeholder :: string where
  "placeholder = ''### ...''"

definition error_msg :: string where
  "error_msg = ''An error occurred while processing your request.''"

text \<open>\<^verbatim>\<open>chat_history[-1] = m\<close> raises on the empty list.\<close>

definition set_last :: "ChatMessage list \<Rightarrow> ChatMessage \<Rightarrow> exn + ChatMessage list" where
  "set_last h m = (if h = [] then Inl IndexError else Inr (butlast h @ [m]))"

text \<open>Lines 164 to 165 and 192 to 193: the placeholder gives way to an empty entry.\<close>

definition clear_placeholder :: "ChatMessage list \<Rightarrow> exn + ChatMessage list" where
  "clear_placeholder h =
     (if h = [] then Inl IndexError
      else if content (last h) = JStr placeholder then set_last h (assistant_msg '''')
      else Inr h)"

text \<open>
  Lines 195 to 198. The conditional expression chooses between the whole concatenated
  f-string and the second literal, and only the chosen one is evaluated.
\<close>

definition live_completed_content :: "(json \<Rightarrow> string) \<Rightarrow> tool_execution \<Rightarrow> exn + string" where
  "live_completed_content R t =
     (case metrics t of
        None \<Rightarrow> Inr ''**Execution time:** N/A\<newline>''
      | Some None \<Rightarrow> Inl TypeError
      | Some (Some d) \<Rightarrow>
          Inr (''\<newline>**Results:** \<newline>'' @ str_of R (result t)
                 @ ''\<newline>**Execution time:** '' @ format_f 4 d @ ''s''))"

text \<open>
  The body of \<^verbatim>\<open>async for chunk\<close> (lines 159 to 232) on the local state. The
  result is the state when the body ends or raises, the snapshots it yielded, and the
  exception if it raised. The three kinds of event exclude each other, so the chain
  \<^verbatim>\<open>if\<close>, \<^verbatim>\<open>elif\<close>, \<^verbatim>\<open>if\<close> is one case distinction.
\<close>

definition busy :: "ChatMessage list \<Rightarrow> snapshot" where
  "busy h = \<lparr>interactive = False, shown = h, stop_visible = True\<rparr>"

definition chunk_step ::
  "(json \<Rightarrow> string) \<Rightarrow> string \<Rightarrow> stream_state \<Rightarrow> chunk
     \<Rightarrow> stream_state \<times> snapshot list \<times> exn option" where
  "chunk_step R chat_event_metadata_radio s c =
     (case event c of
        tool_call_started \<Rightarrow>
          (let s1 = s\<lparr>stream_response := stream_response s @ ''\<newline>''\<rparr> in
           if chat_event_metadata_radio = ''ON'' then
             (case clear_placeholder (chat_history s1) of
                Inl e \<Rightarrow> (s1, [], Some e)
              | Inr h1 \<Rightarrow>
                  (let s2 = s1\<lparr>chat_history := h1,
                                stream_response := stream_response s1 @ ''\<newline>''\<rparr> in
                   case tool c of
                     None \<Rightarrow> (s2, [], Some AttributeError)
                   | Some t \<Rightarrow>
                       (let h2 = h1 @
                              [\<lparr>role = ''assistant'',
                                content = JStr (custom_content_started R
                                                  (tool_name t) (tool_args t)),
                                metadata = Some ToolCallStarted\<rparr>]
                        in (s2\<lparr>chat_history := h2\<rparr>, [busy h2], None))))
           else (s1, [], None))
      | tool_call_completed \<Rightarrow>
          (if chat_event_metadata_radio = ''ON'' then
             (case clear_placeholder (chat_history s) of
                Inl e \<Rightarrow> (s, [], Some e)
              | Inr h1 \<Rightarrow>
                  (let s1 = s\<lparr>chat_history := h1\<rparr> in
                   case tool c of
                     None \<Rightarrow> (s1, [], Some AttributeError)
                   | Some t \<Rightarrow>
                       (case live_completed_content R t of
                          Inl e \<Rightarrow> (s1, [], Some e)
                        | Inr custom_content \<Rightarrow>
                            (let h2 = h1 @
                                   [\<lparr>role = ''assistant'',
                                     content = JStr custom_content,
                                     metadata = Some ToolCallCompleted\<rparr>,
                                    assistant_msg '''']
                             in (\<lparr>chat_history = h2, stream_response = ''''\<rparr>,
                                 [busy h2], None)))))
           else (s, [], None))
      | run_content \<Rightarrow>
          (case chunk_content c of
             JStr fragment \<Rightarrow>
               (let s1 = s\<lparr>stream_response := stream_response s @ fragment\<rparr> in
                case set_last (chat_history s1) (assistant_msg (stream_response s1)) of
                  Inl e \<Rightarrow> (s1, [], Some e)
                | Inr h1 \<Rightarrow> (s1\<lparr>chat_history := h1\<rparr>, [busy h1], None))
           | _ \<Rightarrow> (s, [], None))
      | other_event \<Rightarrow> (s, [], None))"

text \<open>The loop over the chunks stops at the first exception.\<close>

fun stream_loop ::
  "(json \<Rightarrow> string) \<Rightarrow> string \<Rightarrow> stream_state \<Rightarrow> chunk list
     \<Rightarrow> stream_state \<times> snapshot list \<times> exn option" where
  "stream_loop R mr s [] = (s, [], None)"
| "stream_loop R mr s (c # cs) =
     (case chunk_step R mr s c of
        (s1, ys, Some e) \<Rightarrow> (s1, ys, Some e)
      | (s1, ys, None) \<Rightarrow>
          (case stream_loop R mr s1 cs of (s2, ys2, r) \<Rightarrow> (s2, ys @ ys2, r)))"

text \<open>
  Without streaming the agent returns the messages of the run (lines 245 to 310); a
  message is an object with the attributes read here.
\<close>

record message =
  m_role :: string
  m_content :: json
  m_tool_name :: json
  m_tool_args :: json

definition last_user_index :: "message list \<Rightarrow> int" where
  "last_user_index ms =
     fold max (map int (filter (\<lambda>i. m_role (ms ! i) = ''user'') [0..<length ms])) (- 1)"

definition after_last_user :: "message list \<Rightarrow> message list" where
  "after_last_user ms = drop (nat (last_user_index ms + 1)) ms"

text \<open>\<^verbatim>\<open>message.content.strip() if message.content else ""\<close>: only a str has the method.\<close>

definition returned_result_text :: "json \<Rightarrow> exn + string" where
  "returned_result_text c =
     (if truthy c then (case c of JStr s \<Rightarrow> Inr (strip s) | _ \<Rightarrow> Inl AttributeError)
      else Inr [])"

definition plain_entry :: "json \<Rightarrow> ChatMessage" where
  "plain_entry c =
     \<lparr>role = ''assistant'', content = (if c = JNull then JStr '''' else c), metadata = None\<rparr>"

text \<open>The two loops over the messages after the last user message.\<close>

fun returned_loop ::
  "(json \<Rightarrow> string) \<Rightarrow> string \<Rightarrow> ChatMessage list \<Rightarrow> message list
     \<Rightarrow> ChatMessage list \<times> exn option" where
  "returned_loop R mr h [] = (h, None)"
| "returned_loop R mr h (m # ms) =
     (if mr = ''ON'' then
        (if m_role m = ''tool'' then
           (let h1 = h @
                  [\<lparr>role = ''assistant'',
                    content = JStr (custom_content_started R (m_tool_name m) (m_tool_args m)),
                    metadata = Some ToolCallStarted\<rparr>]
            in case returned_result_text (m_content m) of
                 Inl e \<Rightarrow> (h1, Some e)
               | Inr result_text \<Rightarrow>
                   returned_loop R mr
                     (h1 @ [\<lparr>role = ''assistant'',
                             content = JStr (custom_content_completed result_text ''N/A''),
                             metadata = Some ToolCallCompleted\<rparr>]) ms)
         else if m_role m = ''assistant'' then
           returned_loop R mr (h @ [plain_entry (m_content m)]) ms
         else returned_loop R mr h ms)
      else
        (if m_role m = ''assistant'' then
           returned_loop R mr (h @ [plain_entry (m_content m)]) ms
         else returned_loop R mr h ms))"

text \<open>
  The \<^verbatim>\<open>try\<close> block of \<^verbatim>\<open>get_response\<close> (lines 135 to 310) from the history
  \<open>h0\<close> that already holds the user message and the placeholder. The agent is given by
  what it does: \<open>chunks\<close> and \<open>raised\<close> are the events it streams and the
  exception that ends the stream, if one does; \<open>returned\<close> is what the call without
  streaming gives, an exception or the messages of the run (\<^verbatim>\<open>None\<close> if it has
  none).
\<close>

definition response_try ::
  "(json \<Rightarrow> string) \<Rightarrow> string \<Rightarrow> string \<Rightarrow> chunk list \<Rightarrow> exn option
     \<Rightarrow> exn + message list option \<Rightarrow> ChatMessage list
     \<Rightarrow> ChatMessage list \<times> snapshot list \<times> exn option" where
  "response_try R chat_event_metadata_radio chat_stream_radio chunks raised returned h0 =
     (if chat_stream_radio = ''ON'' then
        (case stream_loop R chat_event_metadata_radio
                \<lparr>chat_history = h0, stream_response = ''''\<rparr> chunks of
           (s, ys, Some e) \<Rightarrow> (chat_history s, ys, Some e)
         | (s, ys, None) \<Rightarrow> (chat_history s, ys, raised))
      else if chat_stream_radio = ''OFF'' then
        (case returned of
           Inl e \<Rightarrow> (h0, [], Some e)
         | Inr msgs \<Rightarrow>
             (case clear_placeholder h0 of
                Inl e \<Rightarrow> (h0, [], Some e)
              | Inr h1 \<Rightarrow>
                  (case msgs of
                     None \<Rightarrow> (h1, [], Some TypeError)
                   | Some ms \<Rightarrow>
                       (case returned_loop R chat_event_metadata_radio h1 (after_last_user ms) of
                          (h2, r) \<Rightarrow> (h2, [], r)))))
      else (h0, [], None))"

text \<open>
  The generator (lines 93 to 335): the first snapshot, the \<^verbatim>\<open>try\<close> block, then the
  closing snapshot or the handler of \<^verbatim>\<open>except Exception\<close>. The result is the list of
  the snapshots yielded, or the exception that leaves the generator. The construction
  of the agent (lines 106 to 132) stands before the \<^verbatim>\<open>try\<close> block and is not part
  of the model; the two module variables are modelled apart, in the next section.
\<close>

definition idle :: "ChatMessage list \<Rightarrow> snapshot" where
  "idle h = \<lparr>interactive = True, shown = h, stop_visible = False\<rparr>"

definition get_response ::
  "(json \<Rightarrow> string) \<Rightarrow> string \<Rightarrow> ChatMessage list \<Rightarrow> string \<Rightarrow> string \<Rightarrow> chunk list
     \<Rightarrow> exn option \<Rightarrow> exn + message list option \<Rightarrow> exn + snapshot list" where
  "get_response R user_msg h chat_event_metadata_radio chat_stream_radio chunks raised returned =
     (let h0 = h @ [user_entry user_msg, assistant_msg placeholder];
          first = \<lparr>interactive = False, shown = h0, stop_visible = False\<rparr>
      in case response_try R chat_event_metadata_radio chat_stream_radio
                chunks raised returned h0 of
           (h1, ys, None) \<Rightarrow> Inr (first # ys @ [idle h1])
         | (h1, ys, Some e) \<Rightarrow>
             then_do (set_last h1 (assistant_msg error_msg)) (\<lambda>h2.
               Inr (first # ys @ [idle h2])))"

text \<open>The history of the last snapshot: the transcript when the generator is done.\<close>

definition final_transcript :: "exn + snapshot list \<Rightarrow> ChatMessage list option" where
  "final_transcript r =
     (case r of Inl e \<Rightarrow> None
      | Inr ys \<Rightarrow> (if ys = [] then None else Some (shown (last ys))))"

section \<open>The handle of the running generation\<close>

text \<open>
  \<^verbatim>\<open>running_agent\<close> and \<^verbatim>\<open>current_run_id\<close> are module variables. The places
  that touch them are the steps below; each is one uninterrupted piece of code between
  two suspension points. \<open>cancel_calls\<close> records the calls of \<^verbatim>\<open>cancel_run\<close>: on
  which agent and with which run id.
\<close>

record controller =
  running_agent :: "nat option"
  current_run_id :: "string option"
  cancel_calls :: "(nat \<times> string option) list"

text \<open>
  One step, with the conversation (the call of \<^verbatim>\<open>get_response\<close>, or the user whose
  stop button was pressed) it belongs to: line 125, line 154, line 339, and
  \<^verbatim>\<open>stop_agent_running_stream\<close>.
\<close>

datatype action =
    SetAgent nat nat
  | SeeChunk nat string
  | Finally nat
  | Stop nat

definition stop_agent_running_stream :: "controller \<Rightarrow> controller" where
  "stop_agent_running_stream g =
     (case running_agent g of
        None \<Rightarrow> g
      | Some a \<Rightarrow> g\<lparr>running_agent := None,
                     cancel_calls := cancel_calls g @ [(a, current_run_id g)]\<rparr>)"

fun ctrl_step :: "controller \<Rightarrow> action \<Rightarrow> controller" where
  "ctrl_step g (SetAgent conv a) = g\<lparr>running_agent := Some a\<rparr>"
| "ctrl_step g (SeeChunk conv r) = g\<lparr>current_run_id := Some r\<rparr>"
| "ctrl_step g (Finally conv) = g\<lparr>running_agent := None\<rparr>"
| "ctrl_step g (Stop conv) = stop_agent_running_stream g"

definition ctrl_run :: "controller \<Rightarrow> action list \<Rightarrow> controller" where
  "ctrl_run g acts = fold (\<lambda>a g. ctrl_step g a) acts g"

definition ctrl_init :: controller where
  "ctrl_init = \<lparr>running_agent = None, current_run_id = None, cancel_calls = []\<rparr>"

section \<open>Deduplication as the specification words it\<close>

text \<open>
  The pair that identifies an entry, and the sequence that keeps the first occurrence
  of each distinct pair in the original order.
\<close>

definition ident :: "ChatMessage \<Rightarrow> string \<times> (exn + hkey)" where
  "ident m = (role m, hash_key (content m))"

fun dedupe_spec :: "ChatMessage list \<Rightarrow> ChatMessage list" where
  "dedupe_spec [] = []"
| "dedupe_spec (m # ms) = m # dedupe_spec (filter (\<lambda>x. ident x \<noteq> ident m) ms)"

section \<open>Notions used in the proofs\<close>

text \<open>
  What every state of the loop over the chunks satisfies: the history is not empty and
  its last entry is an assistant entry.
\<close>

definition stream_inv :: "stream_state \<Rightarrow> bool" where
  "stream_inv s \<longleftrightarrow> chat_history s \<noteq> [] \<and> role (last (chat_history s)) = ''assistant''"

text \<open>Concrete inputs for the instances below.\<close>

definition ex_content_chunk :: "string \<Rightarrow> chunk" where
  "ex_content_chunk f = \<lparr>event = run_content, run_id = ''r1'', tool = None, chunk_content = JStr f\<rparr>"

text \<open>
  An event \<open>ev\<close> marks the tool call \<open>k\<close> with the kind \<open>kind\<close> when it carries a
  non-empty tool call id that is the key \<open>k\<close> and its field \<^verbatim>\<open>event\<close> is \<open>kind\<close>.
  The start and the end recorded for a tool call are \<^verbatim>\<open>None\<close> while it has no entry.
\<close>

definition marks :: "string \<Rightarrow> hkey \<Rightarrow> json \<Rightarrow> bool" where
  "marks kind k ev \<longleftrightarrow>
     (case dict_get ev ''tool'' (JObj []) of
        Inl e \<Rightarrow> False
      | Inr d \<Rightarrow>
          (case dict_get d ''tool_call_id'' JNull of
             Inl e \<Rightarrow> False
           | Inr i \<Rightarrow> truthy i \<and> hash_key i = Inr k
                        \<and> dict_item ev ''event'' = Inr (JStr kind)))"

definition start_of :: "tool_times \<Rightarrow> hkey \<Rightarrow> json" where
  "start_of tt k = (case tt k of None \<Rightarrow> JNull | Some p \<Rightarrow> fst p)"

definition end_of :: "tool_times \<Rightarrow> hkey \<Rightarrow> json" where
  "end_of tt k = (case tt k of None \<Rightarrow> JNull | Some p \<Rightarrow> snd p)"

text \<open>
  A tool event of a kind, with the tool call id and the time stamp, and a tool message
  with the tool call id, as the store holds them.
\<close>

definition tool_event :: "string \<Rightarrow> json \<Rightarrow> json \<Rightarrow> json" where
  "tool_event kind i t =
     JObj [(''event'', JStr kind), (''tool'', JObj [(''tool_call_id'', i)]), (''created_at'', t)]"

definition tool_message :: "json \<Rightarrow> json" where
  "tool_message i =
     JObj [(''role'', JStr ''tool''), (''content'', JStr ''ok''), (''tool_name'', JStr ''search''),
           (''tool_args'', JStr ''q''), (''tool_call_id'', i)]"

text \<open>
  The record of the scenario: the messages \<^verbatim>\<open>user:"hi"\<close>, a tool message of the
  tool \<^verbatim>\<open>search\<close> with the arguments \<^verbatim>\<open>{"q": "x"}\<close>, and
  \<^verbatim>\<open>assistant:"found it"\<close>; the events of the tool call 1, started at 0 and
  completed at 1. \<open>plain_repr\<close> stands for \<^verbatim>\<open>repr\<close> in the instances: on the
  arguments of the scenario it is the text that Python gives, elsewhere its text does
  not matter.
\<close>

definition scenario_messages :: "json list" where
  "scenario_messages =
     [JObj [(''role'', JStr ''user''), (''content'', JStr ''hi'')],
      JObj [(''role'', JStr ''tool''), (''tool_name'', JStr ''search''),
            (''tool_args'', JObj [(''q'', JStr ''x'')]), (''tool_call_id'', JInt 1)],
      JObj [(''role'', JStr ''assistant''), (''content'', JStr ''found it'')]]"

definition scenario_events :: "json list" where
  "scenario_events =
     [tool_event ''ToolCallStarted'' (JInt 1) (JInt 0),
      tool_event ''ToolCallCompleted'' (JInt 1) (JInt 1)]"

definition scenario_run :: json where
  "scenario_run =
     JObj [(''messages'', JArr scenario_messages), (''events'', JArr scenario_events)]"

definition scenario_record :: json where
  "scenario_record = JArr [scenario_run]"

definition plain_repr :: "json \<Rightarrow> string" where
  "plain_repr v = (if v = JObj [(''q'', JStr ''x'')] then ''{'q': 'x'}'' else ''...'')"

text \<open>An entry is hashable when its content is; \<open>seen_id\<close> says that the pair of an
  entry is in the set \<^verbatim>\<open>seen\<close>.\<close>

definition hashable :: "ChatMessage \<Rightarrow> bool" where
  "hashable m \<longleftrightarrow> (case hash_key (content m) of Inl e \<Rightarrow> False | Inr k \<Rightarrow> True)"

definition seen_id :: "(string \<times> hkey) set \<Rightarrow> ChatMessage \<Rightarrow> bool" where
  "seen_id seen m \<longleftrightarrow>
     (case hash_key (content m) of Inl e \<Rightarrow> False | Inr k \<Rightarrow> (role m, k) \<in> seen)"

text \<open>A transcript whose third entry repeats the pair of the first with other metadata.\<close>

definition ex_transcript :: "ChatMessage list" where
  "ex_transcript =
     [user_entry ''hi'', assistant_msg ''found it'',
      \<lparr>role = ''user'', content = JStr ''hi'', metadata = Some ToolCallStarted\<rparr>]"

text \<open>A \<^verbatim>\<open>ToolCallStarted\<close> event of the tool \<^verbatim>\<open>search\<close>.\<close>

definition ex_started_chunk :: chunk where
  "ex_started_chunk =
     \<lparr>event = tool_call_started, run_id = ''r1'',
       tool = Some \<lparr>tool_name = JStr ''search'', tool_args = JStr ''q'',
                    result = JNull, metrics = None\<rparr>,
       chunk_content = JNull\<rparr>"

text \<open>
  \<open>pad n c\<close> is the content \<open>c\<close> after \<open>n\<close> additions of a space. An entry \<open>b\<close> is
  \<open>spaced\<close> from \<open>a\<close> when it has the role and the metadata of \<open>a\<close> and its content is
  that of \<open>a\<close> with some spaces added, none unless the role is assistant.
\<close>

fun pad :: "nat \<Rightarrow> json \<Rightarrow> json" where
  "pad n (JStr s) = JStr (s @ replicate n CHR '' '')"
| "pad n (JArr xs) = JArr (xs @ replicate n (JStr '' ''))"
| "pad n v = v"

definition spaced :: "ChatMessage \<Rightarrow> ChatMessage \<Rightarrow> bool" where
  "spaced a b \<longleftrightarrow>
     role b = role a \<and> metadata b = metadata a \<and>
     (\<exists>n. content b = pad n (content a) \<and> (role a = ''assistant'' \<or> n = 0))"

text \<open>A session of two turns, each a question and its answer.\<close>

definition two_turns :: json where
  "two_turns =
     JArr [JObj [(''messages'', JArr
                   [JObj [(''role'', JStr ''user''), (''content'', JStr ''q1'')],
                    JObj [(''role'', JStr ''assistant''), (''content'', JStr ''a1'')]])],
           JObj [(''messages'', JArr
                   [JObj [(''role'', JStr ''user''), (''content'', JStr ''q2'')],
                    JObj [(''role'', JStr ''assistant''), (''content'', JStr ''a2'')]])]]"

text \<open>
  The text that the string fragments of a stream add up to, whether a stream has such
  a fragment, and the stored run of a turn without tool calls: the user message, the
  answer, and the events of the run.
\<close>

definition is_fragment :: "chunk \<Rightarrow> bool" where
  "is_fragment c \<longleftrightarrow>
     event c = run_content \<and> (case chunk_content c of JStr f \<Rightarrow> True | _ \<Rightarrow> False)"

definition fragments :: "chunk list \<Rightarrow> string" where
  "fragments cs =
     concat (map (\<lambda>c. case chunk_content c of JStr f \<Rightarrow> f | _ \<Rightarrow> [])
               (filter is_fragment cs))"

definition tool_free :: "chunk \<Rightarrow> bool" where
  "tool_free c \<longleftrightarrow> event c = run_content \<or> event c = other_event"

definition no_tool_key :: "json \<Rightarrow> bool" where
  "no_tool_key ev \<longleftrightarrow> (case ev of JObj kvs \<Rightarrow> map_of kvs ''tool'' = None | _ \<Rightarrow> False)"

definition stored_run :: "string \<Rightarrow> string \<Rightarrow> json list \<Rightarrow> json" where
  "stored_run u a evs =
     JObj [(''messages'', JArr
              [JObj [(''role'', JStr ''user''), (''content'', JStr u)],
               JObj [(''role'', JStr ''assistant''), (''content'', JStr a)]]),
           (''events'', JArr evs)]"

text \<open>
  The stream that goes with the record of the scenario: the tool call starts, it
  completes after one second with an empty result, and the answer is streamed.
\<close>

definition scenario_chunks :: "chunk list" where
  "scenario_chunks =
     [\<lparr>event = tool_call_started, run_id = ''r1'',
        tool = Some \<lparr>tool_name = JStr ''search'', tool_args = JObj [(''q'', JStr ''x'')],
                     result = JNull, metrics = None\<rparr>,
        chunk_content = JNull\<rparr>,
      \<lparr>event = tool_call_completed, run_id = ''r1'',
        tool = Some \<lparr>tool_name = JStr ''search'', tool_args = JObj [(''q'', JStr ''x'')],
                     result = JStr '''', metrics = Some (Some 1)\<rparr>,
        chunk_content = JNull\<rparr>,
      \<lparr>event = run_content, run_id = ''r1'', tool = None, chunk_content = JStr ''found it''\<rparr>]"

text \<open>The steps that record the run id of a chunk.\<close>

fun is_chunk :: "action \<Rightarrow> bool" where
  "is_chunk (SeeChunk conv r) = True"
| "is_chunk _ = False"

text \<open>The messages of the scenario as the call without streaming returns them.\<close>

definition scenario_returned :: "message list" where
  "scenario_returned =
     [\<lparr>m_role = ''user'', m_content = JStr ''hi'', m_tool_name = JNull, m_tool_args = JNull\<rparr>,
      \<lparr>m_role = ''tool'', m_content = JNull, m_tool_name = JStr ''search'',
        m_tool_args = JObj [(''q'', JStr ''x'')]\<rparr>,
      \<lparr>m_role = ''assistant'', m_content = JStr ''found it'', m_tool_name = JNull,
        m_tool_args = JNull\<rparr>]"

section \<open>Basic facts\<close>

lemma then_do_Inl [simp]: "then_do (Inl e) f = Inl e"
  by (simp add: then_do_def)

lemma then_do_Inr [simp]: "then_do (Inr x) f = f x"
  by (simp add: then_do_def)

lemma then_do_eq_Inr: "then_do m f = Inr y \<longleftrightarrow> (\<exists>x. m = Inr x \<and> f x = Inr y)"
  by (cases m) simp_all

lemma clear_placeholder_nonempty:
  "h \<noteq> [] \<Longrightarrow> clear_placeholder h =
     Inr (if content (last h) = JStr placeholder then butlast h @ [assistant_msg ''''] else h)"
  by (simp add: clear_placeholder_def set_last_def)

section \<open>The invariant of the loop over the chunks\<close>

lemma chunk_step_inv:
  assumes "stream_inv s" and "chunk_step R mr s c = (s', ys, r)"
  shows "stream_inv s'"
  using assms
  by (auto simp: stream_inv_def chunk_step_def clear_placeholder_nonempty set_last_def
      assistant_msg_def Let_def
      split: run_event.splits if_splits option.splits sum.splits json.splits)

lemma stream_loop_inv_fst:
  "stream_inv s \<Longrightarrow> stream_inv (fst (stream_loop R mr s cs))"
proof (induction cs arbitrary: s)
  case Nil
  then show ?case by simp
next
  case (Cons c cs)
  obtain s1 ys1 r1 where step: "chunk_step R mr s c = (s1, ys1, r1)"
    by (cases "chunk_step R mr s c") auto
  have inv1: "stream_inv s1"
    using Cons.prems step by (rule chunk_step_inv)
  show ?case
  proof (cases r1)
    case None
    with step Cons.IH [OF inv1] show ?thesis
      by (auto split: prod.splits)
  next
    case (Some e)
    with step inv1 show ?thesis by simp
  qed
qed

lemma stream_loop_inv:
  "stream_inv s \<Longrightarrow> stream_loop R mr s cs = (s', ys, r) \<Longrightarrow> stream_inv s'"
  using stream_loop_inv_fst [of s R mr cs] by simp

lemma stream_inv_start:
  "stream_inv \<lparr>chat_history = h @ [user_entry u, assistant_msg placeholder], stream_response = sr\<rparr>"
  by (simp add: stream_inv_def assistant_msg_def)

section \<open>The table of the tool times\<close>

lemma times_eq:
  "(case tt k of None \<Rightarrow> (JNull, JNull) | Some p \<Rightarrow> p) = (start_of tt k, end_of tt k)"
  by (simp add: start_of_def end_of_def split: option.splits)

lemma event_step_cases:
  assumes "event_step tt ev = Inr tt'"
  obtains (skipped) d i where "dict_get ev ''tool'' (JObj []) = Inr d"
      and "dict_get d ''tool_call_id'' JNull = Inr i" and "\<not> truthy i" and "tt' = tt"
  | (started) d i k t where "dict_get ev ''tool'' (JObj []) = Inr d"
      and "dict_get d ''tool_call_id'' JNull = Inr i" and "truthy i" and "hash_key i = Inr k"
      and "dict_item ev ''event'' = Inr (JStr ''ToolCallStarted'')"
      and "tt' = tt(k \<mapsto> (t, end_of tt k))"
  | (completed) d i k t where "dict_get ev ''tool'' (JObj []) = Inr d"
      and "dict_get d ''tool_call_id'' JNull = Inr i" and "truthy i" and "hash_key i = Inr k"
      and "dict_item ev ''event'' = Inr (JStr ''ToolCallCompleted'')"
      and "tt' = tt(k \<mapsto> (start_of tt k, t))"
  | (other) d i k x where "dict_get ev ''tool'' (JObj []) = Inr d"
      and "dict_get d ''tool_call_id'' JNull = Inr i" and "truthy i" and "hash_key i = Inr k"
      and "dict_item ev ''event'' = Inr x" and "x \<noteq> JStr ''ToolCallStarted''"
      and "x \<noteq> JStr ''ToolCallCompleted''"
      and "tt' = tt(k \<mapsto> (start_of tt k, end_of tt k))"
proof -
  from assms obtain d i where d: "dict_get ev ''tool'' (JObj []) = Inr d"
    and i: "dict_get d ''tool_call_id'' JNull = Inr i"
    and rest: "(if \<not> truthy i then Inr tt
       else
         then_do (hash_key i) (\<lambda>k.
         let times = (case tt k of None \<Rightarrow> (JNull, JNull) | Some p \<Rightarrow> p) in
         then_do (dict_item ev ''event'') (\<lambda>x.
           if x = JStr ''ToolCallStarted'' then
             then_do (dict_item ev ''created_at'') (\<lambda>t.
               Inr (tt(k \<mapsto> (t, snd times))))
           else if x = JStr ''ToolCallCompleted'' then
             then_do (dict_item ev ''created_at'') (\<lambda>t.
               Inr (tt(k \<mapsto> (fst times, t))))
           else Inr (tt(k \<mapsto> times))))) = Inr tt'"
    unfolding event_step_def then_do_eq_Inr by blast
  show thesis
  proof (cases "truthy i")
    case False
    with rest have "tt' = tt" by simp
    with d i False show thesis by (rule skipped)
  next
    case True
    with rest obtain k x where k: "hash_key i = Inr k" and x: "dict_item ev ''event'' = Inr x"
      and rest2: "(if x = JStr ''ToolCallStarted'' then
             then_do (dict_item ev ''created_at'') (\<lambda>t.
               Inr (tt(k \<mapsto> (t, end_of tt k))))
           else if x = JStr ''ToolCallCompleted'' then
             then_do (dict_item ev ''created_at'') (\<lambda>t.
               Inr (tt(k \<mapsto> (start_of tt k, t))))
           else Inr (tt(k \<mapsto> (start_of tt k, end_of tt k)))) = Inr tt'"
      by (auto simp: then_do_eq_Inr Let_def times_eq cong: if_cong)
    consider "x = JStr ''ToolCallStarted''" | "x = JStr ''ToolCallCompleted''"
      | "x \<noteq> JStr ''ToolCallStarted''" "x \<noteq> JStr ''ToolCallCompleted''"
      by blast
    then show thesis
    proof cases
      case 1
      with rest2 obtain t where "tt' = tt(k \<mapsto> (t, end_of tt k))"
        by (auto simp: then_do_eq_Inr)
      with d i True k x 1 show thesis by (auto intro: started)
    next
      case 2
      with rest2 obtain t where "tt' = tt(k \<mapsto> (start_of tt k, t))"
        by (auto simp: then_do_eq_Inr)
      with d i True k x 2 show thesis by (auto intro: completed)
    next
      case 3
      with rest2 have "tt' = tt(k \<mapsto> (start_of tt k, end_of tt k))"
        by auto
      with d i True k x 3 show thesis by (auto intro: other)
    qed
  qed
qed

lemma marksI:
  "dict_get ev ''tool'' (JObj []) = Inr d \<Longrightarrow> dict_get d ''tool_call_id'' JNull = Inr i
     \<Longrightarrow> truthy i \<Longrightarrow> hash_key i = Inr k \<Longrightarrow> dict_item ev ''event'' = Inr (JStr kind)
     \<Longrightarrow> marks kind k ev"
  by (simp add: marks_def)

lemma event_step_start:
  assumes "event_step tt ev = Inr tt'" and "\<not> marks ''ToolCallStarted'' k ev"
  shows "start_of tt' k = start_of tt k"
  using assms(1)
proof (cases rule: event_step_cases)
  case (skipped d i)
  then show ?thesis by simp
next
  case (started d i k' t)
  with assms(2) have "k' \<noteq> k" by (auto dest: marksI)
  with started show ?thesis by (simp add: start_of_def)
next
  case (completed d i k' t)
  then show ?thesis by (simp add: start_of_def)
next
  case (other d i k' x)
  then show ?thesis by (simp add: start_of_def)
qed

lemma event_step_end:
  assumes "event_step tt ev = Inr tt'" and "\<not> marks ''ToolCallCompleted'' k ev"
  shows "end_of tt' k = end_of tt k"
  using assms(1)
proof (cases rule: event_step_cases)
  case (skipped d i)
  then show ?thesis by simp
next
  case (started d i k' t)
  then show ?thesis by (simp add: end_of_def)
next
  case (completed d i k' t)
  with assms(2) have "k' \<noteq> k" by (auto dest: marksI)
  with completed show ?thesis by (simp add: end_of_def)
next
  case (other d i k' x)
  then show ?thesis by (simp add: end_of_def)
qed

lemma build_start:
  "build_tool_times tt evs = Inr tt' \<Longrightarrow> \<forall>ev\<in>set evs. \<not> marks ''ToolCallStarted'' k ev
     \<Longrightarrow> start_of tt' k = start_of tt k"
proof (induction evs arbitrary: tt)
  case Nil
  then show ?case by simp
next
  case (Cons ev evs)
  from Cons.prems(1) obtain tt1 where
    s1: "event_step tt ev = Inr tt1" and s2: "build_tool_times tt1 evs = Inr tt'"
    by (auto simp: then_do_eq_Inr)
  have "start_of tt1 k = start_of tt k"
    using s1 Cons.prems(2) by (simp add: event_step_start)
  moreover have "start_of tt' k = start_of tt1 k"
    using s2 Cons.prems(2) by (simp add: Cons.IH)
  ultimately show ?case by simp
qed

lemma build_end:
  "build_tool_times tt evs = Inr tt' \<Longrightarrow> \<forall>ev\<in>set evs. \<not> marks ''ToolCallCompleted'' k ev
     \<Longrightarrow> end_of tt' k = end_of tt k"
proof (induction evs arbitrary: tt)
  case Nil
  then show ?case by simp
next
  case (Cons ev evs)
  from Cons.prems(1) obtain tt1 where
    s1: "event_step tt ev = Inr tt1" and s2: "build_tool_times tt1 evs = Inr tt'"
    by (auto simp: then_do_eq_Inr)
  have "end_of tt1 k = end_of tt k"
    using s1 Cons.prems(2) by (simp add: event_step_end)
  moreover have "end_of tt' k = end_of tt1 k"
    using s2 Cons.prems(2) by (simp add: Cons.IH)
  ultimately show ?case by simp
qed

lemma exec_time_unset:
  assumes "hash_key i = Inr k" and "start_of tt k = JNull \<or> end_of tt k = JNull"
  shows "exec_time_of tt i = Inr ''N/A''"
  using assms
  by (auto simp: exec_time_of_def start_of_def end_of_def split: option.splits)

lemma format_2500: "format_f 3 (5 / 2) = ''2.500''"
  by (simp add: format_f_def round_half_even_def dec.simps)

lemma strip_ok: "strip ''ok'' = ''ok''"
  by (simp add: strip_def py_isspace_def)

section \<open>Batch reconstruction: execution times\<close>

text \<open>
  Claim C2. For a run whose events are \<^verbatim>\<open>ToolCallStarted\<close> of the tool call
  \<open>A\<close> at time 10 and \<^verbatim>\<open>ToolCallCompleted\<close> of \<open>A\<close> at time 12.5, the
  reconstruction shows the execution time \<^verbatim>\<open>2.500s\<close> for the tool message of
  \<open>A\<close>. For any list of events, if no event marks the start of a tool call, or none
  marks its completion, the execution time shown for it is \<^verbatim>\<open>N/A\<close>.
\<close>

theorem tool_timing:
  "reconstruct R ''ON'' ''OFF''
     (JArr [JObj [(''messages'', JArr [tool_message (JStr ''A'')]),
                  (''events'', JArr
                     [tool_event ''ToolCallStarted'' (JStr ''A'') (JInt 10),
                      tool_event ''ToolCallCompleted'' (JStr ''A'') (JFloat 12.5)])]])
     = Inr [\<lparr>role = ''assistant'',
              content = JStr ''\<newline>**Tool:** `search`\<newline>**Arguments:** `q`\<newline>'',
              metadata = Some ToolCallStarted\<rparr>,
            \<lparr>role = ''assistant'',
              content = JStr ''**Results:**\<newline>ok\<newline>**Execution time:** 2.500s'',
              metadata = Some ToolCallCompleted\<rparr>]
   \<and> (\<forall>evs tt i k.
          build_tool_times Map.empty evs = Inr tt \<and> hash_key i = Inr k \<and>
          ((\<forall>ev\<in>set evs. \<not> marks ''ToolCallStarted'' k ev) \<or>
           (\<forall>ev\<in>set evs. \<not> marks ''ToolCallCompleted'' k ev))
          \<longrightarrow> exec_time_of tt i = Inr ''N/A'')"
proof (intro conjI allI impI)
  have times: "build_tool_times Map.empty
                 [tool_event ''ToolCallStarted'' (JStr ''A'') (JInt 10),
                  tool_event ''ToolCallCompleted'' (JStr ''A'') (JFloat 12.5)]
               = Inr [KStr ''A'' \<mapsto> (JInt 10, JFloat 12.5)]"
    by (simp add: event_step_def tool_event_def)
  have exec: "exec_time_of [KStr ''A'' \<mapsto> (JInt 10, JFloat 12.5)] (JStr ''A'') = Inr ''2.500s''"
    by (simp add: exec_time_of_def py_sub_def format_2500)
  have step: "msg_step R ''ON'' [KStr ''A'' \<mapsto> (JInt 10, JFloat 12.5)] [] (tool_message (JStr ''A''))
      = Inr [\<lparr>role = ''assistant'',
              content = JStr ''\<newline>**Tool:** `search`\<newline>**Arguments:** `q`\<newline>'',
              metadata = Some ToolCallStarted\<rparr>,
            \<lparr>role = ''assistant'',
              content = JStr ''**Results:**\<newline>ok\<newline>**Execution time:** 2.500s'',
              metadata = Some ToolCallCompleted\<rparr>]"
    unfolding msg_step_def tool_message_def
    using exec
    by (simp add: custom_content_started_def custom_content_completed_def
        result_text_of_def str_of_def strip_ok)
  show "reconstruct R ''ON'' ''OFF''
     (JArr [JObj [(''messages'', JArr [tool_message (JStr ''A'')]),
                  (''events'', JArr
                     [tool_event ''ToolCallStarted'' (JStr ''A'') (JInt 10),
                      tool_event ''ToolCallCompleted'' (JStr ''A'') (JFloat 12.5)])]])
     = Inr [\<lparr>role = ''assistant'',
              content = JStr ''\<newline>**Tool:** `search`\<newline>**Arguments:** `q`\<newline>'',
              metadata = Some ToolCallStarted\<rparr>,
            \<lparr>role = ''assistant'',
              content = JStr ''**Results:**\<newline>ok\<newline>**Execution time:** 2.500s'',
              metadata = Some ToolCallCompleted\<rparr>]"
    using times step
    by (simp add: reconstruct_def run_body_def msg_body_def dedupe_def)
next
  fix evs tt i k
  assume a: "build_tool_times Map.empty evs = Inr tt \<and> hash_key i = Inr k \<and>
          ((\<forall>ev\<in>set evs. \<not> marks ''ToolCallStarted'' k ev) \<or>
           (\<forall>ev\<in>set evs. \<not> marks ''ToolCallCompleted'' k ev))"
  then have b: "build_tool_times Map.empty evs = Inr tt" and h: "hash_key i = Inr k"
    by simp_all
  from a consider "\<forall>ev\<in>set evs. \<not> marks ''ToolCallStarted'' k ev"
    | "\<forall>ev\<in>set evs. \<not> marks ''ToolCallCompleted'' k ev"
    by blast
  then have "start_of tt k = JNull \<or> end_of tt k = JNull"
  proof cases
    case 1
    with b have "start_of tt k = start_of Map.empty k" by (rule build_start)
    then show ?thesis by (simp add: start_of_def)
  next
    case 2
    with b have "end_of tt k = end_of Map.empty k" by (rule build_end)
    then show ?thesis by (simp add: end_of_def)
  qed
  with h show "exec_time_of tt i = Inr ''N/A''" by (rule exec_time_unset)
qed

theorem tool_timing_witness:
  "build_tool_times Map.empty [tool_event ''ToolCallStarted'' (JStr ''A'') (JInt 10)]
     = Inr [KStr ''A'' \<mapsto> (JInt 10, JNull)]
   \<and> hash_key (JStr ''A'') = Inr (KStr ''A'')
   \<and> \<not> marks ''ToolCallCompleted'' (KStr ''A'')
         (tool_event ''ToolCallStarted'' (JStr ''A'') (JInt 10))
   \<and> exec_time_of [KStr ''A'' \<mapsto> (JInt 10, JNull)] (JStr ''A'') = Inr ''N/A''"
proof -
  have b: "build_tool_times Map.empty [tool_event ''ToolCallStarted'' (JStr ''A'') (JInt 10)]
     = Inr [KStr ''A'' \<mapsto> (JInt 10, JNull)]"
    by (simp add: event_step_def tool_event_def)
  have h: "hash_key (JStr ''A'') = Inr (KStr ''A'')" by simp
  have m1: "\<not> marks ''ToolCallCompleted'' (KStr ''A'')
         (tool_event ''ToolCallStarted'' (JStr ''A'') (JInt 10))"
    by (simp add: marks_def tool_event_def)
  then have m: "\<forall>ev\<in>set [tool_event ''ToolCallStarted'' (JStr ''A'') (JInt 10)].
         \<not> marks ''ToolCallCompleted'' (KStr ''A'') ev"
    by simp
  from tool_timing [of "\<lambda>v. ''''"] b h m
  have "exec_time_of [KStr ''A'' \<mapsto> (JInt 10, JNull)] (JStr ''A'') = Inr ''N/A''"
    by blast
  with b h m1 show ?thesis by blast
qed

section \<open>Batch reconstruction: user messages\<close>

lemma scenario_times:
  "build_tool_times Map.empty scenario_events = Inr [KNum 1 \<mapsto> (JInt 0, JInt 1)]"
  by (simp add: scenario_events_def event_step_def tool_event_def)

lemma scenario_loop_off:
  "msg_loop R ''OFF'' ''OFF'' tt [] scenario_messages =
     Inr [\<lparr>role = ''user'', content = JStr ''hi'', metadata = None\<rparr>,
          \<lparr>role = ''assistant'', content = JStr ''found it'', metadata = None\<rparr>]"
  by (simp add: scenario_messages_def msg_body_def msg_step_def)

lemma scenario_dedupe_off:
  "dedupe [\<lparr>role = ''user'', content = JStr ''hi'', metadata = None\<rparr>,
           \<lparr>role = ''assistant'', content = JStr ''found it'', metadata = None\<rparr>]
   = Inr [\<lparr>role = ''user'', content = JStr ''hi'', metadata = None\<rparr>,
          \<lparr>role = ''assistant'', content = JStr ''found it'', metadata = None\<rparr>]"
  by (simp add: dedupe_def)

lemma scenario_off:
  "reconstruct R ''OFF'' ''OFF'' scenario_record =
     Inr [\<lparr>role = ''user'', content = JStr ''hi'', metadata = None\<rparr>,
          \<lparr>role = ''assistant'', content = JStr ''found it'', metadata = None\<rparr>]"
  by (simp add: scenario_record_def scenario_run_def reconstruct_def run_body_def scenario_times
      scenario_loop_off scenario_dedupe_off)

text \<open>
  Claim C6 as stated fails: the reconstruction of the record of the scenario with the
  metadata display off has two entries, the first of which is the user message.
\<close>

theorem user_reemitted_counterexample:
  "reconstruct plain_repr ''OFF'' ''OFF'' scenario_record =
     Inr [\<lparr>role = ''user'', content = JStr ''hi'', metadata = None\<rparr>,
          \<lparr>role = ''assistant'', content = JStr ''found it'', metadata = None\<rparr>]
   \<and> reconstruct plain_repr ''OFF'' ''OFF'' scenario_record \<noteq>
     Inr [\<lparr>role = ''assistant'', content = JStr ''found it'', metadata = None\<rparr>]"
  by (simp add: scenario_off)

section \<open>Batch reconstruction: records that cannot be read\<close>

lemma load_try_raises:
  "load_try loads R fetched mr lr = Inl e \<Longrightarrow>
     load_sessions_history loads R fetched mr lr = ([], 350)"
  by (simp add: load_sessions_history_def)

text \<open>
  Claim C7. The function returns a value on every input: an exception raised anywhere
  in the \<^verbatim>\<open>try\<close> block is caught and gives the empty transcript. The transcript
  is empty when the query fails (the store or its table is missing), when there is no
  row, when the column is null or empty, when either of the two decodings fails, when
  the decoded value is an empty list, and when the reconstruction raises on a value of
  an unexpected shape.
\<close>

theorem unreadable_record_gives_empty:
  assumes
    "(\<exists>e. fetched = Inl e)
     \<or> fetched = Inr None
     \<or> (\<exists>col. fetched = Inr (Some col) \<and>
           (\<not> truthy col
            \<or> (\<exists>e. json_loads loads col = Inl e)
            \<or> (\<exists>inner. json_loads loads col = Inr inner \<and>
                  ((\<exists>e. json_loads loads inner = Inl e)
                   \<or> json_loads loads inner = Inr (JArr [])
                   \<or> (\<exists>memory e. json_loads loads inner = Inr memory \<and>
                          reconstruct R mr lr memory = Inl e)))))
     \<or> (\<exists>e. load_try loads R fetched mr lr = Inl e)"
  shows "fst (load_sessions_history loads R fetched mr lr) = []"
proof -
  consider (err) e where "fetched = Inl e"
    | (norow) "fetched = Inr None"
    | (empty) col where "fetched = Inr (Some col)" "\<not> truthy col"
    | (bad1) col e where "fetched = Inr (Some col)" "truthy col" "json_loads loads col = Inl e"
    | (bad2) col inner e where "fetched = Inr (Some col)" "truthy col"
        "json_loads loads col = Inr inner" "json_loads loads inner = Inl e"
    | (noruns) col inner where "fetched = Inr (Some col)" "truthy col"
        "json_loads loads col = Inr inner" "json_loads loads inner = Inr (JArr [])"
    | (shape) col inner memory e where "fetched = Inr (Some col)" "truthy col"
        "json_loads loads col = Inr inner" "json_loads loads inner = Inr memory"
        "reconstruct R mr lr memory = Inl e"
    | (raised) e where "load_try loads R fetched mr lr = Inl e"
    using assms by blast
  then show ?thesis
  proof cases
    case err
    then show ?thesis by (simp add: load_sessions_history_def load_try_def)
  next
    case norow
    then show ?thesis by (simp add: load_sessions_history_def load_try_def)
  next
    case empty
    then show ?thesis by (simp add: load_sessions_history_def load_try_def)
  next
    case bad1
    then show ?thesis by (simp add: load_sessions_history_def load_try_def)
  next
    case bad2
    then show ?thesis by (simp add: load_sessions_history_def load_try_def)
  next
    case noruns
    then show ?thesis
      by (simp add: load_sessions_history_def load_try_def reconstruct_def dedupe_def)
  next
    case shape
    then show ?thesis by (simp add: load_sessions_history_def load_try_def)
  next
    case raised
    then show ?thesis by (simp add: load_try_raises)
  qed
qed

theorem unreadable_record_gives_empty_witness:
  "json_loads (\<lambda>s. Inl JSONDecodeError) (JStr ''{'') = Inl JSONDecodeError
   \<and> fst (load_sessions_history (\<lambda>s. Inl JSONDecodeError) plain_repr
            (Inr (Some (JStr ''{''))) ''ON'' ''OFF'') = []"
proof -
  have bad: "json_loads (\<lambda>s. Inl JSONDecodeError) (JStr ''{'') = Inl JSONDecodeError"
    by (simp add: json_loads_def)
  have "\<exists>col. Inr (Some (JStr ''{'')) = Inr (Some col) \<and>
           (\<not> truthy col
            \<or> (\<exists>e. json_loads (\<lambda>s. Inl JSONDecodeError) col = Inl e)
            \<or> (\<exists>inner. json_loads (\<lambda>s. Inl JSONDecodeError) col = Inr inner \<and>
                  ((\<exists>e. json_loads (\<lambda>s. Inl JSONDecodeError) inner = Inl e)
                   \<or> json_loads (\<lambda>s. Inl JSONDecodeError) inner = Inr (JArr [])
                   \<or> (\<exists>memory e. json_loads (\<lambda>s. Inl JSONDecodeError) inner = Inr memory \<and>
                          reconstruct plain_repr ''ON'' ''OFF'' memory = Inl e))))"
    using bad by blast
  then have "fst (load_sessions_history (\<lambda>s. Inl JSONDecodeError) plain_repr
            (Inr (Some (JStr ''{''))) ''ON'' ''OFF'') = []"
    by (intro unreadable_record_gives_empty disjI2 disjI1)
  with bad show ?thesis by simp
qed

section \<open>The handle of the running generation is shared\<close>

lemma ctrl_run_append: "ctrl_run g (xs @ ys) = ctrl_run (ctrl_run g xs) ys"
  by (simp add: ctrl_run_def)

lemma ctrl_run_Cons: "ctrl_run g (x # xs) = ctrl_run (ctrl_step g x) xs"
  by (simp add: ctrl_run_def)

lemma ctrl_run_Nil: "ctrl_run g [] = g"
  by (simp add: ctrl_run_def)

lemma ctrl_run_chunks:
  "rs \<noteq> [] \<Longrightarrow> ctrl_run g (map (SeeChunk c) rs) = g\<lparr>current_run_id := Some (last rs)\<rparr>"
proof (induction rs arbitrary: g)
  case Nil
  then show ?case by simp
next
  case (Cons r rs)
  show ?case
  proof (cases "rs = []")
    case True
    then show ?thesis by (simp add: ctrl_run_Cons ctrl_run_Nil)
  next
    case False
    then show ?thesis by (simp add: ctrl_run_Cons Cons.IH)
  qed
qed

text \<open>
  Claim C3 as stated fails. Two conversations are in flight, the second one saw the
  latest chunk, and the user of the first presses stop: \<^verbatim>\<open>cancel_run\<close> is called on
  the agent of the second conversation with the run id of the second conversation, and
  the one handle, which was the second conversation's, is cleared.
\<close>

theorem stop_hits_other_conversation_counterexample:
  "ctrl_run ctrl_init
     [SetAgent 1 10, SeeChunk 1 ''r1'', SetAgent 2 20, SeeChunk 2 ''r2'']
     = \<lparr>running_agent = Some 20, current_run_id = Some ''r2'', cancel_calls = []\<rparr>
   \<and> ctrl_run ctrl_init
     [SetAgent 1 10, SeeChunk 1 ''r1'', SetAgent 2 20, SeeChunk 2 ''r2'', Stop 1]
     = \<lparr>running_agent = None, current_run_id = Some ''r2'',
        cancel_calls = [(20, Some ''r2'')]\<rparr>"
  by (simp add: ctrl_run_def ctrl_init_def stop_agent_running_stream_def)

section \<open>The handle of the running generation: what a stop request cancels\<close>

lemma chunk_keeps_agent:
  "is_chunk x \<Longrightarrow> running_agent (ctrl_step g x) = running_agent g \<and>
     cancel_calls (ctrl_step g x) = cancel_calls g"
  by (cases x) simp_all

lemma chunks_keep_agent:
  "\<forall>x\<in>set xs. is_chunk x \<Longrightarrow>
     running_agent (ctrl_run g xs) = running_agent g \<and>
     cancel_calls (ctrl_run g xs) = cancel_calls g"
proof (induction xs arbitrary: g)
  case Nil
  then show ?case by (simp add: ctrl_run_Nil)
next
  case (Cons x xs)
  then have "is_chunk x" and rest: "\<forall>y\<in>set xs. is_chunk y"
    by simp_all
  from chunk_keeps_agent [OF this(1), of g] Cons.IH [OF rest, of "ctrl_step g x"]
  show ?case by (simp add: ctrl_run_Cons)
qed

lemma other_keeps_run_id:
  "\<not> is_chunk x \<Longrightarrow> current_run_id (ctrl_step g x) = current_run_id g"
  by (cases x) (simp_all add: stop_agent_running_stream_def split: option.splits)

lemma others_keep_run_id:
  "\<forall>x\<in>set xs. \<not> is_chunk x \<Longrightarrow> current_run_id (ctrl_run g xs) = current_run_id g"
proof (induction xs arbitrary: g)
  case Nil
  then show ?case by (simp add: ctrl_run_Nil)
next
  case (Cons x xs)
  then have "\<not> is_chunk x" and rest: "\<forall>y\<in>set xs. \<not> is_chunk y"
    by simp_all
  from other_keeps_run_id [OF this(1), of g] Cons.IH [OF rest, of "ctrl_step g x"]
  show ?case by (simp add: ctrl_run_Cons)
qed

lemma agent_stored_last:
  assumes "\<forall>x\<in>set later. is_chunk x"
  shows "running_agent (ctrl_run g (earlier @ [SetAgent c a] @ later)) = Some a"
proof -
  have "ctrl_run g (earlier @ [SetAgent c a] @ later) =
        ctrl_run (ctrl_step (ctrl_run g earlier) (SetAgent c a)) later"
    by (simp add: ctrl_run_append ctrl_run_Cons ctrl_run_Nil)
  with chunks_keep_agent [OF assms, of "ctrl_step (ctrl_run g earlier) (SetAgent c a)"]
  show ?thesis by simp
qed

lemma run_id_seen_last:
  assumes "\<forall>x\<in>set later. \<not> is_chunk x"
  shows "current_run_id (ctrl_run g (earlier @ [SeeChunk c r] @ later)) = Some r"
proof -
  have "ctrl_run g (earlier @ [SeeChunk c r] @ later) =
        ctrl_run (ctrl_step (ctrl_run g earlier) (SeeChunk c r)) later"
    by (simp add: ctrl_run_append ctrl_run_Cons ctrl_run_Nil)
  with others_keep_run_id [OF assms, of "ctrl_step (ctrl_run g earlier) (SeeChunk c r)"]
  show ?thesis by simp
qed

lemma stop_with_handle:
  "running_agent g = Some a \<Longrightarrow>
     ctrl_step g (Stop c) =
       g\<lparr>running_agent := None, cancel_calls := cancel_calls g @ [(a, current_run_id g)]\<rparr>"
  by (simp add: stop_agent_running_stream_def)

text \<open>
  Claim C3, amended. The handle and the run id are one pair of variables for the whole
  process, not one per conversation. A stop request, whichever conversation makes it,
  does nothing when there is no handle. When an agent was stored, by any conversation,
  and only chunks, of any conversations, came after that, the request calls
  \<^verbatim>\<open>cancel_run\<close> on that agent with the run id held at that moment and clears the one
  handle; the run id held after a chunk, of any conversation, and steps that are not
  chunks is the run id of that chunk. So when a conversation stored its agent and then
  chunks of its own came, at least one and nothing else, a request, whoever makes it,
  cancels the latest run of that conversation; and with two conversations in flight the request of the first
  conversation can cancel the run of the second one and clear the handle both share.
\<close>

theorem stop_cancels_latest_run:
  "(\<forall>g c. running_agent g = None \<longrightarrow> ctrl_step g (Stop c) = g)
   \<and> (\<forall>g earlier c a later c'.
        (\<forall>x\<in>set later. is_chunk x) \<longrightarrow>
        ctrl_run g (earlier @ [SetAgent c a] @ later @ [Stop c'])
          = (ctrl_run g (earlier @ [SetAgent c a] @ later))
              \<lparr>running_agent := None,
                cancel_calls :=
                  cancel_calls (ctrl_run g (earlier @ [SetAgent c a] @ later))
                    @ [(a, current_run_id (ctrl_run g (earlier @ [SetAgent c a] @ later)))]\<rparr>)
   \<and> (\<forall>g earlier c r later.
        (\<forall>x\<in>set later. \<not> is_chunk x) \<longrightarrow>
        current_run_id (ctrl_run g (earlier @ [SeeChunk c r] @ later)) = Some r)
   \<and> (\<forall>g earlier c a rs c'.
        rs \<noteq> [] \<longrightarrow>
        ctrl_run g (earlier @ [SetAgent c a] @ map (SeeChunk c) rs @ [Stop c'])
          = (ctrl_run g earlier)
              \<lparr>running_agent := None,
                current_run_id := Some (last rs),
                cancel_calls := cancel_calls (ctrl_run g earlier) @ [(a, Some (last rs))]\<rparr>)
   \<and> ctrl_run ctrl_init
       [SetAgent 1 10, SeeChunk 1 ''r1'', SetAgent 2 20, SeeChunk 2 ''r2'', Stop 1]
     = \<lparr>running_agent = None, current_run_id = Some ''r2'',
        cancel_calls = [(20, Some ''r2'')]\<rparr>"
proof (intro conjI allI impI)
  fix g :: controller and c :: nat
  assume "running_agent g = None"
  then show "ctrl_step g (Stop c) = g"
    by (simp add: stop_agent_running_stream_def)
next
  fix g :: controller and earlier later :: "action list" and c a c' :: nat
  assume chunks: "\<forall>x\<in>set later. is_chunk x"
  let ?G = "ctrl_run g (earlier @ [SetAgent c a] @ later)"
  have "running_agent ?G = Some a"
    using chunks by (rule agent_stored_last)
  then have "ctrl_step ?G (Stop c') =
      ?G\<lparr>running_agent := None, cancel_calls := cancel_calls ?G @ [(a, current_run_id ?G)]\<rparr>"
    by (rule stop_with_handle)
  moreover have "ctrl_run g (earlier @ [SetAgent c a] @ later @ [Stop c']) =
      ctrl_step ?G (Stop c')"
    using ctrl_run_append [of g "earlier @ [SetAgent c a] @ later" "[Stop c']"]
    by (simp add: ctrl_run_Cons ctrl_run_Nil)
  ultimately show "ctrl_run g (earlier @ [SetAgent c a] @ later @ [Stop c'])
          = ?G\<lparr>running_agent := None,
                cancel_calls := cancel_calls ?G @ [(a, current_run_id ?G)]\<rparr>"
    by simp
next
  fix g :: controller and earlier later :: "action list" and c :: nat and r :: string
  assume "\<forall>x\<in>set later. \<not> is_chunk x"
  then show "current_run_id (ctrl_run g (earlier @ [SeeChunk c r] @ later)) = Some r"
    by (rule run_id_seen_last)
next
  fix g :: controller and earlier c a c' and rs :: "string list"
  assume rs: "rs \<noteq> []"
  let ?g1 = "ctrl_run g earlier"
  have "ctrl_run g (earlier @ [SetAgent c a] @ map (SeeChunk c) rs @ [Stop c'])
        = ctrl_step (ctrl_run (ctrl_step ?g1 (SetAgent c a)) (map (SeeChunk c) rs)) (Stop c')"
    by (simp add: ctrl_run_append ctrl_run_Cons ctrl_run_Nil)
  also have "\<dots> = ctrl_step ((?g1\<lparr>running_agent := Some a\<rparr>)\<lparr>current_run_id := Some (last rs)\<rparr>)
                       (Stop c')"
    using rs by (simp add: ctrl_run_chunks)
  also have "\<dots> = ?g1\<lparr>running_agent := None,
                current_run_id := Some (last rs),
                cancel_calls := cancel_calls ?g1 @ [(a, Some (last rs))]\<rparr>"
    by (simp add: stop_agent_running_stream_def)
  finally show "ctrl_run g (earlier @ [SetAgent c a] @ map (SeeChunk c) rs @ [Stop c'])
          = ?g1\<lparr>running_agent := None,
                current_run_id := Some (last rs),
                cancel_calls := cancel_calls ?g1 @ [(a, Some (last rs))]\<rparr>" .
next
  show "ctrl_run ctrl_init
       [SetAgent 1 10, SeeChunk 1 ''r1'', SetAgent 2 20, SeeChunk 2 ''r2'', Stop 1]
     = \<lparr>running_agent = None, current_run_id = Some ''r2'',
        cancel_calls = [(20, Some ''r2'')]\<rparr>"
    by (simp add: ctrl_run_def ctrl_init_def stop_agent_running_stream_def)
qed

theorem stop_cancels_latest_run_witness:
  "running_agent ctrl_init = None \<and> ctrl_step ctrl_init (Stop 1) = ctrl_init
   \<and> list_all is_chunk [SeeChunk 1 ''r1'']
   \<and> ctrl_run ctrl_init ([SetAgent 1 10] @ [SetAgent 2 20] @ [SeeChunk 1 ''r1''] @ [Stop 2])
     = \<lparr>running_agent = None, current_run_id = Some ''r1'',
        cancel_calls = [(20, Some ''r1'')]\<rparr>
   \<and> list_all (\<lambda>x. \<not> is_chunk x) [SetAgent 2 20]
   \<and> current_run_id (ctrl_run ctrl_init ([] @ [SeeChunk 1 ''r1''] @ [SetAgent 2 20]))
     = Some ''r1''
   \<and> [''r1'', ''r2''] \<noteq> []
   \<and> ctrl_run ctrl_init
       ([] @ [SetAgent 1 10] @ map (SeeChunk 1) [''r1'', ''r2''] @ [Stop 1])
     = \<lparr>running_agent = None, current_run_id = Some ''r2'',
        cancel_calls = [(10, Some ''r2'')]\<rparr>"
proof -
  note inst = stop_cancels_latest_run
  have n: "running_agent ctrl_init = None"
    by (simp add: ctrl_init_def)
  have 1: "ctrl_step ctrl_init (Stop 1) = ctrl_init"
    using inst [THEN conjunct1, rule_format, OF n] .
  have ch: "list_all is_chunk [SeeChunk 1 ''r1'']"
    by simp
  then have ch': "\<forall>x\<in>set [SeeChunk 1 ''r1'']. is_chunk x"
    by simp
  have 2: "ctrl_run ctrl_init ([SetAgent 1 10] @ [SetAgent 2 20] @ [SeeChunk 1 ''r1''] @ [Stop 2])
     = \<lparr>running_agent = None, current_run_id = Some ''r1'',
        cancel_calls = [(20, Some ''r1'')]\<rparr>"
    using inst [THEN conjunct2, THEN conjunct1, THEN spec, THEN spec, THEN spec, THEN spec,
        THEN spec, THEN spec, THEN mp, OF ch', of ctrl_init "[SetAgent 1 10]" 2 20 2]
    by (simp add: ctrl_run_def ctrl_init_def)
  have nc: "list_all (\<lambda>x. \<not> is_chunk x) [SetAgent 2 20]"
    by simp
  then have nc': "\<forall>x\<in>set [SetAgent 2 20]. \<not> is_chunk x"
    by simp
  have 3: "current_run_id (ctrl_run ctrl_init ([] @ [SeeChunk 1 ''r1''] @ [SetAgent 2 20]))
     = Some ''r1''"
    using inst [THEN conjunct2, THEN conjunct2, THEN conjunct1, THEN spec, THEN spec,
        THEN spec, THEN spec, THEN spec, THEN mp, OF nc', of ctrl_init "[]" 1 "''r1''"] .
  have ne: "[''r1'', ''r2''] \<noteq> []"
    by simp
  have 4: "ctrl_run ctrl_init
       ([] @ [SetAgent 1 10] @ map (SeeChunk 1) [''r1'', ''r2''] @ [Stop 1])
     = \<lparr>running_agent = None, current_run_id = Some ''r2'',
        cancel_calls = [(10, Some ''r2'')]\<rparr>"
    using inst [THEN conjunct2, THEN conjunct2, THEN conjunct2, THEN conjunct1, rule_format,
        OF ne, of ctrl_init "[]" 1 10 1]
    by (simp add: ctrl_run_Nil ctrl_init_def)
  show ?thesis
    by (intro conjI n 1 ch 2 nc 3 ne 4)
qed

section \<open>Deduplication\<close>

lemma seen_id_empty [simp]: "\<not> seen_id {} m"
  by (simp add: seen_id_def split: sum.splits)

lemma seen_id_insert:
  "hash_key (content m) = Inr k \<Longrightarrow>
     seen_id (insert (role m, k) seen) x \<longleftrightarrow> ident x = ident m \<or> seen_id seen x"
  by (auto simp: seen_id_def ident_def split: sum.splits)

lemma dedupe_loop_spec:
  "\<forall>m\<in>set msgs. hashable m \<Longrightarrow>
     dedupe_loop seen unique msgs =
       Inr (unique @ dedupe_spec (filter (\<lambda>m. \<not> seen_id seen m) msgs))"
proof (induction msgs arbitrary: seen unique)
  case Nil
  then show ?case by simp
next
  case (Cons m ms)
  from Cons.prems obtain k where k: "hash_key (content m) = Inr k"
    by (auto simp: hashable_def split: sum.splits)
  have rest: "\<forall>x\<in>set ms. hashable x"
    using Cons.prems by simp
  show ?case
  proof (cases "(role m, k) \<in> seen")
    case True
    then have "seen_id seen m"
      using k by (simp add: seen_id_def)
    with True k Cons.IH [OF rest] show ?thesis by simp
  next
    case False
    then have new: "\<not> seen_id seen m"
      using k by (simp add: seen_id_def)
    have "filter (\<lambda>x. \<not> seen_id (insert (role m, k) seen) x) ms =
          filter (\<lambda>x. ident x \<noteq> ident m) (filter (\<lambda>x. \<not> seen_id seen x) ms)"
      by (auto simp: seen_id_insert [OF k] intro: filter_cong)
    with False new k Cons.IH [OF rest, of "insert (role m, k) seen" "unique @ [m]"]
    show ?thesis by simp
  qed
qed

lemma dedupe_is_spec: "\<forall>m\<in>set xs. hashable m \<Longrightarrow> dedupe xs = Inr (dedupe_spec xs)"
  by (simp add: dedupe_def dedupe_loop_spec)

lemma dedupe_loop_hashable:
  "dedupe_loop seen unique msgs = Inr ys \<Longrightarrow> \<forall>m\<in>set msgs. hashable m"
proof (induction msgs arbitrary: seen unique)
  case Nil
  then show ?case by simp
next
  case (Cons m ms)
  from Cons.prems obtain k where k: "hash_key (content m) = Inr k"
    by (auto simp: then_do_eq_Inr)
  then have "hashable m" by (simp add: hashable_def)
  moreover have "\<forall>x\<in>set ms. hashable x"
    using Cons.prems k Cons.IH by (auto split: if_splits)
  ultimately show ?case by simp
qed

lemma dedupe_spec_subseq: "subseq (dedupe_spec xs) xs"
proof (induction xs rule: dedupe_spec.induct)
  case 1
  then show ?case by simp
next
  case (2 m ms)
  have "subseq (filter (\<lambda>x. ident x \<noteq> ident m) ms) ms"
    by simp
  with 2 have "subseq (dedupe_spec (filter (\<lambda>x. ident x \<noteq> ident m) ms)) ms"
    by (rule subseq_order.trans)
  then show ?case by simp
qed

lemma dedupe_spec_set: "ident ` set (dedupe_spec xs) = ident ` set xs"
proof (induction xs rule: dedupe_spec.induct)
  case 1
  then show ?case by simp
next
  case (2 m ms)
  then show ?case by auto
qed

lemma dedupe_spec_distinct: "distinct (map ident (dedupe_spec xs))"
proof (induction xs rule: dedupe_spec.induct)
  case 1
  then show ?case by simp
next
  case (2 m ms)
  have "ident m \<notin> ident ` set (dedupe_spec (filter (\<lambda>x. ident x \<noteq> ident m) ms))"
    by (auto simp: dedupe_spec_set)
  with 2 show ?case by simp
qed

lemma dedupe_spec_filter:
  "dedupe_spec (filter (\<lambda>x. ident x \<noteq> a) xs) = filter (\<lambda>x. ident x \<noteq> a) (dedupe_spec xs)"
proof (induction xs rule: dedupe_spec.induct)
  case 1
  then show ?case by simp
next
  case (2 m ms)
  have comm: "filter (\<lambda>x. ident x \<noteq> ident m) (filter (\<lambda>x. ident x \<noteq> a) ms) =
              filter (\<lambda>x. ident x \<noteq> a) (filter (\<lambda>x. ident x \<noteq> ident m) ms)"
    by (auto intro: filter_cong)
  show ?case
  proof (cases "ident m = a")
    case True
    have "filter (\<lambda>x. ident x \<noteq> a) (filter (\<lambda>x. ident x \<noteq> ident m) ms) =
          filter (\<lambda>x. ident x \<noteq> a) ms"
      using True by (auto intro: filter_cong)
    with True 2 show ?thesis by simp
  next
    case False
    with 2 comm show ?thesis by simp
  qed
qed

lemma dedupe_spec_idem: "dedupe_spec (dedupe_spec xs) = dedupe_spec xs"
proof (induction xs rule: dedupe_spec.induct)
  case 1
  then show ?case by simp
next
  case (2 m ms)
  have "filter (\<lambda>x. ident x \<noteq> ident m) (dedupe_spec (filter (\<lambda>x. ident x \<noteq> ident m) ms)) =
        dedupe_spec (filter (\<lambda>x. ident x \<noteq> ident m) ms)"
    by (simp add: dedupe_spec_filter [symmetric])
  with 2 show ?case by simp
qed

text \<open>
  Claim C5. Where the removal of duplicates returns (it raises exactly when a content
  is unhashable), its result is the sequence that keeps the first occurrence of each
  distinct pair of role and content in the original order: a subsequence of the
  transcript, with every pair of the transcript exactly once. Applying the removal to
  its own result changes nothing. Two entries that differ in the metadata only are
  the same pair.
\<close>

theorem dedupe_first_occurrences:
  "then_do (dedupe xs) dedupe = dedupe xs
   \<and> ((\<forall>m\<in>set xs. hashable m) \<longrightarrow> dedupe xs = Inr (dedupe_spec xs))
   \<and> (\<forall>ys. dedupe xs = Inr ys \<longrightarrow>
          ys = dedupe_spec xs \<and> subseq ys xs \<and> distinct (map ident ys)
          \<and> ident ` set ys = ident ` set xs)
   \<and> (\<forall>m md. hashable m \<longrightarrow> dedupe [m, m\<lparr>metadata := md\<rparr>] = Inr [m])"
proof (intro conjI allI impI)
  show "then_do (dedupe xs) dedupe = dedupe xs"
  proof (cases "dedupe xs")
    case (Inl e)
    then show ?thesis by simp
  next
    case (Inr ys)
    then have h: "\<forall>m\<in>set xs. hashable m"
      unfolding dedupe_def by (rule dedupe_loop_hashable)
    then have ys: "ys = dedupe_spec xs"
      using Inr by (simp add: dedupe_is_spec)
    have "set ys \<subseteq> set xs"
      unfolding ys using dedupe_spec_subseq [of xs] by (auto dest: list_emb_set)
    then have "\<forall>m\<in>set ys. hashable m"
      using h by blast
    then have "dedupe ys = Inr (dedupe_spec ys)"
      by (rule dedupe_is_spec)
    then show ?thesis
      using Inr ys by (simp add: dedupe_spec_idem)
  qed
next
  assume "\<forall>m\<in>set xs. hashable m"
  then show "dedupe xs = Inr (dedupe_spec xs)"
    by (rule dedupe_is_spec)
next
  fix ys
  assume ys: "dedupe xs = Inr ys"
  then have "\<forall>m\<in>set xs. hashable m"
    unfolding dedupe_def by (rule dedupe_loop_hashable)
  with ys show eq: "ys = dedupe_spec xs"
    by (simp add: dedupe_is_spec)
  show "subseq ys xs"
    unfolding eq by (rule dedupe_spec_subseq)
  show "distinct (map ident ys)"
    unfolding eq by (rule dedupe_spec_distinct)
  show "ident ` set ys = ident ` set xs"
    unfolding eq by (rule dedupe_spec_set)
next
  fix m md
  assume "hashable m"
  then obtain k where "hash_key (content m) = Inr k"
    by (auto simp: hashable_def split: sum.splits)
  then show "dedupe [m, m\<lparr>metadata := md\<rparr>] = Inr [m]"
    by (simp add: dedupe_def)
qed

theorem dedupe_first_occurrences_witness:
  "list_all hashable ex_transcript
   \<and> dedupe ex_transcript = Inr [user_entry ''hi'', assistant_msg ''found it'']
   \<and> [user_entry ''hi'', assistant_msg ''found it''] = dedupe_spec ex_transcript
   \<and> subseq [user_entry ''hi'', assistant_msg ''found it''] ex_transcript
   \<and> hashable (user_entry ''hi'')
   \<and> dedupe [user_entry ''hi'', (user_entry ''hi'')\<lparr>metadata := Some ToolCallStarted\<rparr>]
       = Inr [user_entry ''hi'']"
proof -
  have h: "list_all hashable ex_transcript"
    by (simp add: ex_transcript_def hashable_def user_entry_def assistant_msg_def)
  then have all: "\<forall>m\<in>set ex_transcript. hashable m"
    by (simp add: list_all_iff)
  have u: "hashable (user_entry ''hi'')"
    by (simp add: hashable_def user_entry_def)
  note inst = dedupe_first_occurrences [of ex_transcript]
  have d: "dedupe ex_transcript = Inr [user_entry ''hi'', assistant_msg ''found it'']"
    using inst [THEN conjunct2, THEN conjunct1, THEN mp, OF all]
    by (simp add: ex_transcript_def user_entry_def assistant_msg_def ident_def)
  note first = inst [THEN conjunct2, THEN conjunct2, THEN conjunct1, rule_format, OF d]
  note same = inst [THEN conjunct2, THEN conjunct2, THEN conjunct2, rule_format, OF u]
  from first have f1: "[user_entry ''hi'', assistant_msg ''found it''] = dedupe_spec ex_transcript"
    and f2: "subseq [user_entry ''hi'', assistant_msg ''found it''] ex_transcript"
    by blast+
  show ?thesis
    by (intro conjI h d f1 f2 u same)
qed

section \<open>The live path: an exception of the agent\<close>

lemma returned_loop_nonempty:
  "h \<noteq> [] \<Longrightarrow> fst (returned_loop R mr h ms) \<noteq> []"
proof (induction ms arbitrary: h)
  case Nil
  then show ?case by simp
next
  case (Cons m ms)
  have a: "fst (returned_loop R mr (h @ xs) ms) \<noteq> []" for xs
    using Cons.prems by (intro Cons.IH) simp
  have b: "fst (returned_loop R mr h ms) \<noteq> []"
    using Cons.prems by (rule Cons.IH)
  have c: "fst (returned_loop R mr (h @ xs @ ys) ms) \<noteq> []" for xs ys
    using a [of "xs @ ys"] by simp
  show ?case
    using a b c by (auto simp: Let_def split: sum.splits)
qed

lemma response_try_nonempty:
  assumes "response_try R mr sr chunks raised returned
             (h @ [user_entry u, assistant_msg placeholder]) = (h1, ys, r)"
  shows "h1 \<noteq> []"
proof -
  let ?h0 = "h @ [user_entry u, assistant_msg placeholder]"
  consider (on) "sr = ''ON''" | (off) "sr \<noteq> ''ON''" "sr = ''OFF''"
    | (other) "sr \<noteq> ''ON''" "sr \<noteq> ''OFF''"
    by blast
  then show ?thesis
  proof cases
    case on
    obtain s zs q where loop:
      "stream_loop R mr \<lparr>chat_history = ?h0, stream_response = ''''\<rparr> chunks = (s, zs, q)"
      by (cases "stream_loop R mr \<lparr>chat_history = ?h0, stream_response = ''''\<rparr> chunks") auto
    have "stream_inv s"
      using stream_inv_start loop by (rule stream_loop_inv)
    moreover have "h1 = chat_history s"
      using assms on loop by (auto simp: response_try_def split: option.splits)
    ultimately show ?thesis by (simp add: stream_inv_def)
  next
    case off
    show ?thesis
    proof (cases returned)
      case (Inl e)
      with assms off show ?thesis by (auto simp: response_try_def)
    next
      case (Inr msgs)
      have c: "clear_placeholder ?h0 = Inr (h @ [user_entry u, assistant_msg ''''])"
        by (simp add: clear_placeholder_def set_last_def assistant_msg_def placeholder_def
            butlast_append)
      show ?thesis
      proof (cases msgs)
        case None
        with assms off Inr c show ?thesis by (auto simp: response_try_def)
      next
        case (Some ms)
        have "fst (returned_loop R mr (h @ [user_entry u, assistant_msg ''''])
                 (after_last_user ms)) \<noteq> []"
          by (rule returned_loop_nonempty) simp
        with assms off Inr c Some show ?thesis
          by (auto simp: response_try_def split: prod.splits)
      qed
    qed
  next
    case other
    with assms show ?thesis by (auto simp: response_try_def)
  qed
qed

lemma started_after_content:
  "stream_loop R ''ON''
     \<lparr>chat_history = [user_entry ''hi'', assistant_msg placeholder], stream_response = ''''\<rparr>
     [ex_content_chunk ''x'', ex_started_chunk]
   = (\<lparr>chat_history =
         [user_entry ''hi'', assistant_msg ''x'',
          \<lparr>role = ''assistant'',
            content = JStr ''\<newline>**Tool:** `search`\<newline>**Arguments:** `q`\<newline>'',
            metadata = Some ToolCallStarted\<rparr>],
       stream_response = ''x\<newline>\<newline>''\<rparr>,
      [busy [user_entry ''hi'', assistant_msg ''x''],
       busy [user_entry ''hi'', assistant_msg ''x'',
          \<lparr>role = ''assistant'',
            content = JStr ''\<newline>**Tool:** `search`\<newline>**Arguments:** `q`\<newline>'',
            metadata = Some ToolCallStarted\<rparr>]],
      None)"
  by (simp add: chunk_step_def ex_content_chunk_def ex_started_chunk_def set_last_def
      clear_placeholder_def assistant_msg_def placeholder_def custom_content_started_def
      str_of_def Let_def)

text \<open>
  Claim C4 as stated fails. With the metadata display on, a fragment \<^verbatim>\<open>x\<close> is
  streamed, a tool call starts, and the agent raises: the entry that the error entry
  replaces is the entry of the tool call, and the content streamed so far stays in the
  transcript.
\<close>

theorem error_keeps_earlier_content_counterexample:
  "final_transcript
     (get_response plain_repr ''hi'' [] ''ON'' ''ON''
        [ex_content_chunk ''x'', ex_started_chunk] (Some AgentError) (Inr None))
   = Some [user_entry ''hi'', assistant_msg ''x'', assistant_msg error_msg]"
  by (simp add: get_response_def response_try_def started_after_content final_transcript_def
      set_last_def idle_def del: stream_loop.simps)

text \<open>
  Claim C4, amended. No exception leaves the generator. When the \<^verbatim>\<open>try\<close> block
  raises, the last entry of the history at that moment, whatever it is, is replaced by
  the generic error entry and every earlier entry is kept. So an exception of the call
  without streaming gives the history before the call, the user entry and the error
  entry; an exception that ends the stream after chunks that were all processed
  replaces the last entry of the history those chunks built.
\<close>

theorem error_replaces_last_entry:
  "(\<exists>snaps. get_response R u h mr sr chunks raised returned = Inr snaps)
   \<and> (\<forall>h1 ys e.
        response_try R mr sr chunks raised returned
          (h @ [user_entry u, assistant_msg placeholder]) = (h1, ys, Some e)
        \<longrightarrow> h1 \<noteq> [] \<and>
            final_transcript (get_response R u h mr sr chunks raised returned)
              = Some (butlast h1 @ [assistant_msg error_msg]))
   \<and> (\<forall>e. sr = ''OFF'' \<and> returned = Inl e
        \<longrightarrow> final_transcript (get_response R u h mr sr chunks raised returned)
              = Some (h @ [user_entry u, assistant_msg error_msg]))
   \<and> (\<forall>e s ys.
        sr = ''ON'' \<and> raised = Some e \<and>
        stream_loop R mr
          \<lparr>chat_history = h @ [user_entry u, assistant_msg placeholder],
            stream_response = ''''\<rparr> chunks = (s, ys, None)
        \<longrightarrow> final_transcript (get_response R u h mr sr chunks raised returned)
              = Some (butlast (chat_history s) @ [assistant_msg error_msg]))"
proof -
  let ?h0 = "h @ [user_entry u, assistant_msg placeholder]"
  let ?g = "get_response R u h mr sr chunks raised returned"
  have handled: "h1 \<noteq> [] \<and> ?g = Inr (\<lparr>interactive = False, shown = ?h0, stop_visible = False\<rparr>
                      # ys @ [idle (butlast h1 @ [assistant_msg error_msg])])"
    if "response_try R mr sr chunks raised returned ?h0 = (h1, ys, Some e)" for h1 ys e
  proof -
    from that have "h1 \<noteq> []" by (rule response_try_nonempty)
    with that show ?thesis
      by (simp add: get_response_def set_last_def)
  qed
  have final: "h1 \<noteq> [] \<and> final_transcript ?g = Some (butlast h1 @ [assistant_msg error_msg])"
    if "response_try R mr sr chunks raised returned ?h0 = (h1, ys, Some e)" for h1 ys e
    using handled [OF that] by (simp add: final_transcript_def idle_def)
  have total: "\<exists>snaps. ?g = Inr snaps"
  proof -
    obtain h1 ys r where t: "response_try R mr sr chunks raised returned ?h0 = (h1, ys, r)"
      by (cases "response_try R mr sr chunks raised returned ?h0") auto
    show ?thesis
    proof (cases r)
      case None
      with t show ?thesis by (simp add: get_response_def)
    next
      case (Some e)
      with t handled show ?thesis by blast
    qed
  qed
  have batch: "final_transcript ?g = Some (h @ [user_entry u, assistant_msg error_msg])"
    if "sr = ''OFF'' \<and> returned = Inl e" for e
  proof -
    from that have "response_try R mr sr chunks raised returned ?h0 = (?h0, [], Some e)"
      by (simp add: response_try_def)
    from final [OF this] show ?thesis by (simp add: butlast_append)
  qed
  have stream: "final_transcript ?g = Some (butlast (chat_history s) @ [assistant_msg error_msg])"
    if "sr = ''ON'' \<and> raised = Some e \<and>
        stream_loop R mr \<lparr>chat_history = ?h0, stream_response = ''''\<rparr> chunks = (s, ys, None)"
    for e s ys
  proof -
    from that have
      "response_try R mr sr chunks raised returned ?h0 = (chat_history s, ys, Some e)"
      by (simp add: response_try_def)
    from final [OF this] show ?thesis by simp
  qed
  from total final batch stream show ?thesis by blast
qed

theorem error_replaces_last_entry_witness:
  "response_try plain_repr ''ON'' ''OFF'' [] None (Inl AgentError)
     ([] @ [user_entry ''hi'', assistant_msg placeholder])
     = ([user_entry ''hi'', assistant_msg placeholder], [], Some AgentError)
   \<and> final_transcript (get_response plain_repr ''hi'' [] ''ON'' ''OFF'' [] None (Inl AgentError))
     = Some [user_entry ''hi'', assistant_msg error_msg]
   \<and> stream_loop plain_repr ''ON''
       \<lparr>chat_history = [] @ [user_entry ''hi'', assistant_msg placeholder],
         stream_response = ''''\<rparr> [ex_content_chunk ''x'']
     = (\<lparr>chat_history = [user_entry ''hi'', assistant_msg ''x''], stream_response = ''x''\<rparr>,
        [busy [user_entry ''hi'', assistant_msg ''x'']], None)
   \<and> final_transcript
       (get_response plain_repr ''hi'' [] ''ON'' ''ON'' [ex_content_chunk ''x'']
          (Some AgentError) (Inr None))
     = Some [user_entry ''hi'', assistant_msg error_msg]"
proof -
  note batch = error_replaces_last_entry
    [of plain_repr "''hi''" "[]" "''ON''" "''OFF''" "[]" None "Inl AgentError"]
  note stream = error_replaces_last_entry
    [of plain_repr "''hi''" "[]" "''ON''" "''ON''" "[ex_content_chunk ''x'']"
        "Some AgentError" "Inr None"]
  have t: "response_try plain_repr ''ON'' ''OFF'' [] None (Inl AgentError)
     ([] @ [user_entry ''hi'', assistant_msg placeholder])
     = ([user_entry ''hi'', assistant_msg placeholder], [], Some AgentError)"
    by (simp add: response_try_def)
  have l: "stream_loop plain_repr ''ON''
       \<lparr>chat_history = [] @ [user_entry ''hi'', assistant_msg placeholder],
         stream_response = ''''\<rparr> [ex_content_chunk ''x'']
     = (\<lparr>chat_history = [user_entry ''hi'', assistant_msg ''x''], stream_response = ''x''\<rparr>,
        [busy [user_entry ''hi'', assistant_msg ''x'']], None)"
    by (simp add: chunk_step_def ex_content_chunk_def set_last_def)
  have 1: "final_transcript
       (get_response plain_repr ''hi'' [] ''ON'' ''OFF'' [] None (Inl AgentError))
     = Some [user_entry ''hi'', assistant_msg error_msg]"
    using batch [THEN conjunct2, THEN conjunct1, rule_format, OF t] by simp
  have 2: "final_transcript
       (get_response plain_repr ''hi'' [] ''ON'' ''ON'' [ex_content_chunk ''x'']
          (Some AgentError) (Inr None))
     = Some [user_entry ''hi'', assistant_msg error_msg]"
    using stream [THEN conjunct2, THEN conjunct2, THEN conjunct2, rule_format,
        OF conjI [OF refl conjI [OF refl l]]] by simp
  show ?thesis
    by (intro conjI t 1 l 2)
qed

section \<open>The live path: content fragments\<close>

text \<open>
  Claim C8. In every state that the loop of \<^verbatim>\<open>get_response\<close> reaches, a
  \<^verbatim>\<open>RunContent\<close> event whose content is a string appends the fragment to the
  buffer and overwrites the last entry of the history, which is an assistant entry,
  with the whole buffer; no entry is appended, and one snapshot is yielded, whatever
  the setting of the metadata display.
\<close>

theorem run_content_overwrites_last:
  assumes "stream_loop R mr
             \<lparr>chat_history = h @ [user_entry u, assistant_msg placeholder],
               stream_response = ''''\<rparr> earlier = (s, ys, None)"
    and "event c = run_content" and "chunk_content c = JStr fragment"
  shows "chat_history s \<noteq> [] \<and> role (last (chat_history s)) = ''assistant'' \<and>
         chunk_step R mr s c =
           (\<lparr>chat_history =
                butlast (chat_history s) @ [assistant_msg (stream_response s @ fragment)],
              stream_response = stream_response s @ fragment\<rparr>,
            [busy (butlast (chat_history s) @ [assistant_msg (stream_response s @ fragment)])],
            None)"
proof -
  have inv: "stream_inv s"
    using stream_inv_start assms(1) by (rule stream_loop_inv)
  then have ne: "chat_history s \<noteq> []" and r: "role (last (chat_history s)) = ''assistant''"
    by (simp_all add: stream_inv_def)
  have "chunk_step R mr s c =
           (\<lparr>chat_history =
                butlast (chat_history s) @ [assistant_msg (stream_response s @ fragment)],
              stream_response = stream_response s @ fragment\<rparr>,
            [busy (butlast (chat_history s) @ [assistant_msg (stream_response s @ fragment)])],
            None)"
    using assms(2,3) ne by (simp add: chunk_step_def set_last_def Let_def)
  with ne r show ?thesis by simp
qed

theorem run_content_overwrites_last_witness:
  "stream_loop (\<lambda>v. '''') ''OFF''
     \<lparr>chat_history = [] @ [user_entry ''hi'', assistant_msg placeholder], stream_response = ''''\<rparr>
     [ex_content_chunk ''fo'']
     = (\<lparr>chat_history = [user_entry ''hi'', assistant_msg ''fo''], stream_response = ''fo''\<rparr>,
        [busy [user_entry ''hi'', assistant_msg ''fo'']], None)
   \<and> chunk_step (\<lambda>v. '''') ''OFF''
        \<lparr>chat_history = [user_entry ''hi'', assistant_msg ''fo''], stream_response = ''fo''\<rparr>
        (ex_content_chunk ''und'')
      = (\<lparr>chat_history = [user_entry ''hi'', assistant_msg ''found''],
           stream_response = ''found''\<rparr>,
         [busy [user_entry ''hi'', assistant_msg ''found'']], None)"
proof -
  have run: "stream_loop (\<lambda>v. '''') ''OFF''
     \<lparr>chat_history = [] @ [user_entry ''hi'', assistant_msg placeholder], stream_response = ''''\<rparr>
     [ex_content_chunk ''fo'']
     = (\<lparr>chat_history = [user_entry ''hi'', assistant_msg ''fo''], stream_response = ''fo''\<rparr>,
        [busy [user_entry ''hi'', assistant_msg ''fo'']], None)"
    by (simp add: chunk_step_def ex_content_chunk_def set_last_def)
  from run_content_overwrites_last [OF run, of "ex_content_chunk ''und''" "''und''"]
  show ?thesis using run by (simp add: ex_content_chunk_def)
qed

section \<open>Batch reconstruction: the added spaces\<close>

lemma pad_0 [simp]: "pad 0 c = c"
  by (cases c) simp_all

lemma spaced_refl [simp]: "spaced a a"
  unfolding spaced_def by (intro conjI refl exI [of _ 0]) simp_all

lemma iadd_space_pad:
  "iadd_space (pad n c) = Inr c' \<Longrightarrow> c' = pad (Suc n) c"
  by (cases c) (simp_all add: replicate_append_same)

lemma spaced_bump:
  assumes "spaced a b" and "role b = ''assistant''" and "iadd_space (content b) = Inr c"
  shows "spaced a (b\<lparr>content := c\<rparr>)"
proof -
  from assms(1) obtain n where n: "content b = pad n (content a)"
    and r: "role b = role a" and m: "metadata b = metadata a"
    by (auto simp: spaced_def)
  from assms(3) n have "c = pad (Suc n) (content a)"
    by (simp add: iadd_space_pad)
  with r m assms(2) show ?thesis
    unfolding spaced_def by auto
qed

lemma latex_trigger_rev_spaced:
  "latex_trigger_rev ms = Inr ms' \<Longrightarrow> list_all2 spaced xs ms \<Longrightarrow> list_all2 spaced xs ms'"
proof (induction ms arbitrary: xs ms')
  case Nil
  then show ?case by simp
next
  case (Cons m ms)
  from Cons.prems(2) obtain x xs' where xs: "xs = x # xs'" and x: "spaced x m"
    and rest: "list_all2 spaced xs' ms"
    by (auto simp: list_all2_Cons2)
  show ?case
  proof (cases "role m = ''assistant''")
    case True
    with Cons.prems(1) obtain c where c: "iadd_space (content m) = Inr c"
      and ms': "ms' = m\<lparr>content := c\<rparr> # ms"
      by (auto simp: then_do_eq_Inr)
    from x True c have "spaced x (m\<lparr>content := c\<rparr>)"
      by (rule spaced_bump)
    with rest xs ms' show ?thesis by simp
  next
    case False
    with Cons.prems(1) obtain ms2 where r: "latex_trigger_rev ms = Inr ms2"
      and ms': "ms' = m # ms2"
      by (auto simp: then_do_eq_Inr)
    from r rest have "list_all2 spaced xs' ms2"
      by (rule Cons.IH)
    with x xs ms' show ?thesis by simp
  qed
qed

lemma latex_trigger_spaced:
  assumes "latex_trigger h2 = Inr h2'" and "list_all2 spaced h1 h2"
  shows "list_all2 spaced h1 h2'"
proof -
  from assms(1) obtain ms where r: "latex_trigger_rev (rev h2) = Inr ms" and h2': "h2' = rev ms"
    by (auto simp: latex_trigger_def then_do_eq_Inr)
  from assms(2) have "list_all2 spaced (rev h1) (rev h2)"
    by simp
  with r have "list_all2 spaced (rev h1) ms"
    by (rule latex_trigger_rev_spaced)
  then have "list_all2 spaced (rev (rev h1)) (rev ms)"
    by (simp only: list_all2_rev)
  with h2' show ?thesis by simp
qed

lemma msg_step_appends:
  assumes "msg_step R mr tt h msg = Inr h'"
  shows "\<exists>new. h' = h @ new \<and> (\<forall>h2. msg_step R mr tt h2 msg = Inr (h2 @ new))"
proof -
  from assms obtain role_v content_v name args tool_call_id where
    g: "dict_get msg ''role'' JNull = Inr role_v"
       "dict_get msg ''content'' (JStr '''') = Inr content_v"
       "dict_get msg ''tool_name'' JNull = Inr name"
       "dict_get msg ''tool_args'' JNull = Inr args"
       "dict_get msg ''tool_call_id'' JNull = Inr tool_call_id"
    unfolding msg_step_def then_do_eq_Inr by blast
  have eq: "msg_step R mr tt h2 msg =
      (if mr = ''ON'' \<and> role_v = JStr ''tool'' then
         then_do (exec_time_of tt tool_call_id) (\<lambda>exec_time.
           Inr (h2 @
             [\<lparr>role = ''assistant'',
               content = JStr (custom_content_started R name args),
               metadata = Some ToolCallStarted\<rparr>,
              \<lparr>role = ''assistant'',
               content = JStr (custom_content_completed
                                 (result_text_of R content_v) exec_time),
               metadata = Some ToolCallCompleted\<rparr>]))
       else if role_v = JStr ''user'' then
         Inr (h2 @
           [\<lparr>role = ''user'',
             content = (if content_v \<noteq> JNull then content_v else JStr ''''),
             metadata = None\<rparr>])
       else if role_v = JStr ''assistant'' then
         Inr (h2 @
           [\<lparr>role = ''assistant'',
             content = (if content_v \<noteq> JNull then content_v else JStr ''''),
             metadata = None\<rparr>])
       else Inr h2)" for h2
    using g by (simp add: msg_step_def)
  show ?thesis
  proof (cases "mr = ''ON'' \<and> role_v = JStr ''tool''")
    case True
    with assms eq [of h] obtain exec_time where ex: "exec_time_of tt tool_call_id = Inr exec_time"
      by (cases "exec_time_of tt tool_call_id") auto
    let ?new = "[\<lparr>role = ''assistant'',
               content = JStr (custom_content_started R name args),
               metadata = Some ToolCallStarted\<rparr>,
              \<lparr>role = ''assistant'',
               content = JStr (custom_content_completed
                                 (result_text_of R content_v) exec_time),
               metadata = Some ToolCallCompleted\<rparr>]"
    have e2: "msg_step R mr tt h2 msg = Inr (h2 @ ?new)" for h2
      using eq [of h2] True ex by simp
    from assms e2 [of h] have "h' = h @ ?new" by simp
    with e2 show ?thesis by blast
  next
    case False
    let ?new = "if role_v = JStr ''user'' then
           [\<lparr>role = ''user'',
             content = (if content_v \<noteq> JNull then content_v else JStr ''''),
             metadata = None\<rparr>]
       else if role_v = JStr ''assistant'' then
           [\<lparr>role = ''assistant'',
             content = (if content_v \<noteq> JNull then content_v else JStr ''''),
             metadata = None\<rparr>]
       else []"
    have e2: "msg_step R mr tt h2 msg = Inr (h2 @ ?new)" for h2
      using eq [of h2] False by simp
    from assms e2 [of h] have "h' = h @ ?new" by simp
    with e2 show ?thesis by blast
  qed
qed

lemma msg_body_spaced:
  assumes "list_all2 spaced h1 h2" and "lr \<noteq> ''ON''"
    and "msg_body R mr lr tt h1 msg = Inr h1'"
    and "msg_body R mr ''ON'' tt h2 msg = Inr h2'"
  shows "list_all2 spaced h1' h2'"
proof -
  from assms(2,3) have s1: "msg_step R mr tt h1 msg = Inr h1'"
    by (auto simp: msg_body_def then_do_eq_Inr)
  then obtain new where h1': "h1' = h1 @ new"
    and all: "\<And>h. msg_step R mr tt h msg = Inr (h @ new)"
    using msg_step_appends by blast
  from assms(4) all [of h2] have t: "latex_trigger (h2 @ new) = Inr h2'"
    by (simp add: msg_body_def)
  have "list_all2 spaced new new"
    by (simp add: list_all2_refl)
  with assms(1) have "list_all2 spaced (h1 @ new) (h2 @ new)"
    by (rule list_all2_appendI)
  with t have "list_all2 spaced (h1 @ new) h2'"
    by (rule latex_trigger_spaced)
  with h1' show ?thesis by simp
qed

lemma msg_loop_spaced:
  "list_all2 spaced h1 h2 \<Longrightarrow> lr \<noteq> ''ON'' \<Longrightarrow> msg_loop R mr lr tt h1 msgs = Inr h1'
     \<Longrightarrow> msg_loop R mr ''ON'' tt h2 msgs = Inr h2' \<Longrightarrow> list_all2 spaced h1' h2'"
proof (induction msgs arbitrary: h1 h2)
  case Nil
  then show ?case by simp
next
  case (Cons msg msgs)
  from Cons.prems(3) obtain k1 where b1: "msg_body R mr lr tt h1 msg = Inr k1"
    and l1: "msg_loop R mr lr tt k1 msgs = Inr h1'"
    by (auto simp: then_do_eq_Inr)
  from Cons.prems(4) obtain k2 where b2: "msg_body R mr ''ON'' tt h2 msg = Inr k2"
    and l2: "msg_loop R mr ''ON'' tt k2 msgs = Inr h2'"
    by (auto simp: then_do_eq_Inr)
  from Cons.prems(1,2) b1 b2 have "list_all2 spaced k1 k2"
    by (rule msg_body_spaced)
  from this Cons.prems(2) l1 l2 show ?case
    by (rule Cons.IH)
qed

lemma run_body_spaced:
  assumes "list_all2 spaced h1 h2" and "lr \<noteq> ''ON''"
    and "run_body R mr lr h1 run = Inr h1'"
    and "run_body R mr ''ON'' h2 run = Inr h2'"
  shows "list_all2 spaced h1' h2'"
proof -
  from assms(3) obtain messages events evs tt msgs where
    g: "dict_get run ''messages'' (JArr []) = Inr messages"
       "dict_get run ''events'' (JArr []) = Inr events"
       "py_iter events = Inr evs"
       "build_tool_times Map.empty evs = Inr tt"
       "py_iter messages = Inr msgs"
    and l1: "msg_loop R mr lr tt h1 msgs = Inr h1'"
    unfolding run_body_def then_do_eq_Inr by blast
  from assms(4) g have l2: "msg_loop R mr ''ON'' tt h2 msgs = Inr h2'"
    by (simp add: run_body_def)
  from assms(1,2) l1 l2 show ?thesis
    by (rule msg_loop_spaced)
qed

lemma run_loop_spaced:
  "list_all2 spaced h1 h2 \<Longrightarrow> lr \<noteq> ''ON'' \<Longrightarrow> run_loop R mr lr h1 runs = Inr h1'
     \<Longrightarrow> run_loop R mr ''ON'' h2 runs = Inr h2' \<Longrightarrow> list_all2 spaced h1' h2'"
proof (induction runs arbitrary: h1 h2)
  case Nil
  then show ?case by simp
next
  case (Cons run runs)
  from Cons.prems(3) obtain k1 where b1: "run_body R mr lr h1 run = Inr k1"
    and l1: "run_loop R mr lr k1 runs = Inr h1'"
    by (auto simp: then_do_eq_Inr)
  from Cons.prems(4) obtain k2 where b2: "run_body R mr ''ON'' h2 run = Inr k2"
    and l2: "run_loop R mr ''ON'' k2 runs = Inr h2'"
    by (auto simp: then_do_eq_Inr)
  from Cons.prems(1,2) b1 b2 have "list_all2 spaced k1 k2"
    by (rule run_body_spaced)
  from this Cons.prems(2) l1 l2 show ?case
    by (rule Cons.IH)
qed

lemma two_turns_runs:
  "run_loop R mr ''OFF'' [] [JObj [(''messages'', JArr
                   [JObj [(''role'', JStr ''user''), (''content'', JStr ''q1'')],
                    JObj [(''role'', JStr ''assistant''), (''content'', JStr ''a1'')]])],
           JObj [(''messages'', JArr
                   [JObj [(''role'', JStr ''user''), (''content'', JStr ''q2'')],
                    JObj [(''role'', JStr ''assistant''), (''content'', JStr ''a2'')]])]]
     = Inr [user_entry ''q1'', assistant_msg ''a1'', user_entry ''q2'', assistant_msg ''a2'']"
  "run_loop R mr ''ON'' [] [JObj [(''messages'', JArr
                   [JObj [(''role'', JStr ''user''), (''content'', JStr ''q1'')],
                    JObj [(''role'', JStr ''assistant''), (''content'', JStr ''a1'')]])],
           JObj [(''messages'', JArr
                   [JObj [(''role'', JStr ''user''), (''content'', JStr ''q2'')],
                    JObj [(''role'', JStr ''assistant''), (''content'', JStr ''a2'')]])]]
     = Inr [user_entry ''q1'', assistant_msg ''a1  '', user_entry ''q2'', assistant_msg ''a2 '']"
  by (simp_all add: run_body_def msg_body_def msg_step_def latex_trigger_def
      user_entry_def assistant_msg_def)

lemma two_turns_off:
  "reconstruct R mr ''OFF'' two_turns =
     Inr [user_entry ''q1'', assistant_msg ''a1'', user_entry ''q2'', assistant_msg ''a2'']"
  by (simp add: reconstruct_def two_turns_def two_turns_runs dedupe_def
      user_entry_def assistant_msg_def del: run_loop.simps)

lemma two_turns_on:
  "reconstruct R mr ''ON'' two_turns =
     Inr [user_entry ''q1'', assistant_msg ''a1  '', user_entry ''q2'', assistant_msg ''a2 '']"
  by (simp add: reconstruct_def two_turns_def two_turns_runs dedupe_def
      user_entry_def assistant_msg_def del: run_loop.simps)

lemma latex_trigger_rev_last:
  "\<forall>x\<in>set xs. role x \<noteq> ''assistant'' \<Longrightarrow> role m = ''assistant''
     \<Longrightarrow> iadd_space (content m) = Inr c
     \<Longrightarrow> latex_trigger_rev (xs @ m # ys) = Inr (xs @ m\<lparr>content := c\<rparr> # ys)"
  by (induction xs) simp_all

lemma latex_trigger_rev_none:
  "\<forall>x\<in>set xs. role x \<noteq> ''assistant'' \<Longrightarrow> latex_trigger_rev xs = Inr xs"
  by (induction xs) simp_all

text \<open>
  Claim C9 as stated fails. For a session of two turns the reconstruction with the
  normalisation on differs from the one without it in both answers: the first answer
  has two more characters, the last one has one.
\<close>

theorem spaces_accumulate_counterexample:
  "reconstruct plain_repr ''OFF'' ''OFF'' two_turns =
     Inr [user_entry ''q1'', assistant_msg ''a1'', user_entry ''q2'', assistant_msg ''a2'']
   \<and> reconstruct plain_repr ''OFF'' ''ON'' two_turns =
     Inr [user_entry ''q1'', assistant_msg ''a1  '', user_entry ''q2'', assistant_msg ''a2 '']"
  by (simp add: two_turns_off two_turns_on)

text \<open>
  Claim C9, amended. With the normalisation on, the pass runs after every stored
  message, before the removal of duplicates: it adds one space to the content of the
  last assistant entry of the history built so far and changes nothing else (and
  nothing at all when the history has no assistant entry). The removal of duplicates
  is applied afterwards. So whenever both reconstructions of a stored value return,
  they are the results of removing the duplicates from two histories of the same
  length whose entries agree in role and metadata, the contents of the normalised one
  being those of the other one with spaces added at the end, on assistant entries
  only.
\<close>

theorem spaces_added_before_dedupe:
  "(\<forall>before m s after.
      role m = ''assistant'' \<and> content m = JStr s \<and>
      (\<forall>x\<in>set after. role x \<noteq> ''assistant'')
      \<longrightarrow> latex_trigger (before @ [m] @ after) =
            Inr (before @ [m\<lparr>content := JStr (s @ '' '')\<rparr>] @ after))
   \<and> (\<forall>h. (\<forall>x\<in>set h. role x \<noteq> ''assistant'') \<longrightarrow> latex_trigger h = Inr h)
   \<and> (\<forall>lr res_off res_on.
      lr \<noteq> ''ON'' \<and> reconstruct R mr lr memory = Inr res_off \<and>
      reconstruct R mr ''ON'' memory = Inr res_on
      \<longrightarrow> (\<exists>h_off h_on. dedupe h_off = Inr res_off \<and> dedupe h_on = Inr res_on \<and>
                          list_all2 spaced h_off h_on))"
proof (intro conjI allI impI)
  fix before after :: "ChatMessage list" and m :: ChatMessage and s
  assume a: "role m = ''assistant'' \<and> content m = JStr s \<and>
      (\<forall>x\<in>set after. role x \<noteq> ''assistant'')"
  then have "latex_trigger_rev (rev after @ m # rev before) =
             Inr (rev after @ m\<lparr>content := JStr (s @ '' '')\<rparr> # rev before)"
    by (intro latex_trigger_rev_last) simp_all
  then show "latex_trigger (before @ [m] @ after) =
            Inr (before @ [m\<lparr>content := JStr (s @ '' '')\<rparr>] @ after)"
    by (simp add: latex_trigger_def)
next
  fix h :: "ChatMessage list"
  assume "\<forall>x\<in>set h. role x \<noteq> ''assistant''"
  then have "latex_trigger_rev (rev h) = Inr (rev h)"
    by (intro latex_trigger_rev_none) simp
  then show "latex_trigger h = Inr h"
    by (simp add: latex_trigger_def)
next
  fix lr res_off res_on
  assume a: "lr \<noteq> ''ON'' \<and> reconstruct R mr lr memory = Inr res_off \<and>
      reconstruct R mr ''ON'' memory = Inr res_on"
  then obtain runs h_off where i: "py_iter memory = Inr runs"
    and l1: "run_loop R mr lr [] runs = Inr h_off" and d1: "dedupe h_off = Inr res_off"
    by (auto simp: reconstruct_def then_do_eq_Inr)
  from a i obtain h_on where l2: "run_loop R mr ''ON'' [] runs = Inr h_on"
    and d2: "dedupe h_on = Inr res_on"
    by (auto simp: reconstruct_def then_do_eq_Inr)
  have "list_all2 spaced [] []"
    by simp
  from this a [THEN conjunct1] l1 l2 have "list_all2 spaced h_off h_on"
    by (rule run_loop_spaced)
  with d1 d2 show "\<exists>h_off h_on. dedupe h_off = Inr res_off \<and> dedupe h_on = Inr res_on \<and>
                          list_all2 spaced h_off h_on"
    by blast
qed

theorem spaces_added_before_dedupe_witness:
  "role (assistant_msg ''a1'') = ''assistant'' \<and> content (assistant_msg ''a1'') = JStr ''a1''
   \<and> role (user_entry ''q2'') \<noteq> ''assistant''
   \<and> latex_trigger ([user_entry ''q1''] @ [assistant_msg ''a1''] @ [user_entry ''q2'']) =
       Inr ([user_entry ''q1''] @ [(assistant_msg ''a1'')\<lparr>content := JStr (''a1'' @ '' '')\<rparr>]
              @ [user_entry ''q2''])
   \<and> latex_trigger [user_entry ''q2''] = Inr [user_entry ''q2'']
   \<and> ''OFF'' \<noteq> ''ON''
   \<and> reconstruct plain_repr ''OFF'' ''OFF'' two_turns =
       Inr [user_entry ''q1'', assistant_msg ''a1'', user_entry ''q2'', assistant_msg ''a2'']
   \<and> reconstruct plain_repr ''OFF'' ''ON'' two_turns =
       Inr [user_entry ''q1'', assistant_msg ''a1  '', user_entry ''q2'', assistant_msg ''a2 '']
   \<and> (\<exists>h_off h_on.
         dedupe h_off =
           Inr [user_entry ''q1'', assistant_msg ''a1'', user_entry ''q2'', assistant_msg ''a2'']
         \<and> dedupe h_on =
           Inr [user_entry ''q1'', assistant_msg ''a1  '', user_entry ''q2'', assistant_msg ''a2 '']
         \<and> list_all2 spaced h_off h_on)"
proof -
  note inst = spaces_added_before_dedupe [of plain_repr "''OFF''" two_turns]
  have r: "role (assistant_msg ''a1'') = ''assistant''"
    and c: "content (assistant_msg ''a1'') = JStr ''a1''"
    by (simp_all add: assistant_msg_def)
  have u1: "role (user_entry ''q2'') \<noteq> ''assistant''"
    by (simp add: user_entry_def)
  then have u: "\<forall>x\<in>set [user_entry ''q2'']. role x \<noteq> ''assistant''"
    by simp
  have 1: "latex_trigger ([user_entry ''q1''] @ [assistant_msg ''a1''] @ [user_entry ''q2'']) =
       Inr ([user_entry ''q1''] @ [(assistant_msg ''a1'')\<lparr>content := JStr (''a1'' @ '' '')\<rparr>]
              @ [user_entry ''q2''])"
    using inst [THEN conjunct1, THEN spec, THEN spec, THEN spec, THEN spec, THEN mp,
        OF conjI [OF r conjI [OF c u]]] .
  have 2: "latex_trigger [user_entry ''q2''] = Inr [user_entry ''q2'']"
    using inst [THEN conjunct2, THEN conjunct1, THEN spec, THEN mp, OF u] .
  have o: "''OFF'' \<noteq> ''ON''"
    by simp
  have off: "reconstruct plain_repr ''OFF'' ''OFF'' two_turns =
       Inr [user_entry ''q1'', assistant_msg ''a1'', user_entry ''q2'', assistant_msg ''a2'']"
    by (rule two_turns_off)
  have on: "reconstruct plain_repr ''OFF'' ''ON'' two_turns =
       Inr [user_entry ''q1'', assistant_msg ''a1  '', user_entry ''q2'', assistant_msg ''a2 '']"
    by (rule two_turns_on)
  have 3: "\<exists>h_off h_on.
         dedupe h_off =
           Inr [user_entry ''q1'', assistant_msg ''a1'', user_entry ''q2'', assistant_msg ''a2'']
         \<and> dedupe h_on =
           Inr [user_entry ''q1'', assistant_msg ''a1  '', user_entry ''q2'', assistant_msg ''a2 '']
         \<and> list_all2 spaced h_off h_on"
    using inst [THEN conjunct2, THEN conjunct2, THEN spec, THEN spec, THEN spec, THEN mp,
        OF conjI [OF o conjI [OF off on]]] .
  show ?thesis
    by (intro conjI r c u1 1 2 o off on 3)
qed

section \<open>Batch reconstruction: every user message has an entry\<close>

lemma spaced_same:
  assumes "spaced e b" and "role e \<noteq> ''assistant''"
  shows "b = e"
  using assms by (cases e, cases b) (auto simp: spaced_def)

lemma latex_trigger_keeps:
  assumes "latex_trigger h = Inr h'" and "e \<in> set h" and "role e \<noteq> ''assistant''"
  shows "e \<in> set h'"
proof -
  have "list_all2 spaced h h"
    by (simp add: list_all2_refl)
  with assms(1) have rel: "list_all2 spaced h h'"
    by (rule latex_trigger_spaced)
  from assms(2) obtain i where i: "i < length h" and e: "h ! i = e"
    by (auto simp: in_set_conv_nth)
  from rel i have "spaced (h ! i) (h' ! i)" and "i < length h'"
    by (auto simp: list_all2_conv_all_nth)
  with e assms(3) have "h' ! i = e" and "i < length h'"
    by (auto dest: spaced_same)
  then show ?thesis
    by (auto simp: in_set_conv_nth)
qed

lemma msg_body_keeps:
  assumes "msg_body R mr lr tt h msg = Inr h'" and "e \<in> set h" and "role e \<noteq> ''assistant''"
  shows "e \<in> set h'"
proof -
  from assms(1) obtain h1 where s: "msg_step R mr tt h msg = Inr h1"
    and t: "(if lr = ''ON'' then latex_trigger h1 else Inr h1) = Inr h'"
    by (auto simp: msg_body_def then_do_eq_Inr)
  from s obtain new where "h1 = h @ new"
    using msg_step_appends by blast
  with assms(2) have "e \<in> set h1" by simp
  with t assms(3) show ?thesis
    by (auto split: if_splits dest: latex_trigger_keeps)
qed

lemma msg_loop_keeps:
  "msg_loop R mr lr tt h msgs = Inr h' \<Longrightarrow> e \<in> set h \<Longrightarrow> role e \<noteq> ''assistant''
     \<Longrightarrow> e \<in> set h'"
proof (induction msgs arbitrary: h)
  case Nil
  then show ?case by simp
next
  case (Cons msg msgs)
  from Cons.prems(1) obtain k where b: "msg_body R mr lr tt h msg = Inr k"
    and l: "msg_loop R mr lr tt k msgs = Inr h'"
    by (auto simp: then_do_eq_Inr)
  from b Cons.prems(2,3) have "e \<in> set k"
    by (rule msg_body_keeps)
  from l this Cons.prems(3) show ?case
    by (rule Cons.IH)
qed

lemma msg_loop_user:
  assumes "dict_get msg ''role'' JNull = Inr (JStr ''user'')"
    and "dict_get msg ''content'' (JStr '''') = Inr c"
  shows "msg_loop R mr lr tt h msgs = Inr h' \<Longrightarrow> msg \<in> set msgs \<Longrightarrow>
     \<lparr>role = ''user'', content = (if c \<noteq> JNull then c else JStr ''''), metadata = None\<rparr>
       \<in> set h'"
proof (induction msgs arbitrary: h)
  case Nil
  then show ?case by simp
next
  case (Cons m msgs)
  let ?e = "\<lparr>role = ''user'', content = (if c \<noteq> JNull then c else JStr ''''),
             metadata = None\<rparr>"
  from Cons.prems(1) obtain k where b: "msg_body R mr lr tt h m = Inr k"
    and l: "msg_loop R mr lr tt k msgs = Inr h'"
    by (auto simp: then_do_eq_Inr)
  show ?case
  proof (cases "m = msg")
    case True
    from assms obtain kvs where kvs: "msg = JObj kvs"
      by (cases msg) simp_all
    with assms have step: "msg_step R mr tt h msg = Inr (h @ [?e])"
      by (simp add: msg_step_def)
    have u: "role ?e \<noteq> ''assistant''" by simp
    from b True step have "(if lr = ''ON'' then latex_trigger (h @ [?e]) else Inr (h @ [?e])) = Inr k"
      by (simp add: msg_body_def)
    then have "?e \<in> set k"
      using u by (auto split: if_splits dest: latex_trigger_keeps [where e = ?e])
    from l this u show ?thesis
      by (rule msg_loop_keeps)
  next
    case False
    with Cons.prems(2) have "msg \<in> set msgs" by simp
    with l show ?thesis
      by (rule Cons.IH)
  qed
qed

lemma run_loop_keeps:
  "run_loop R mr lr h runs = Inr h' \<Longrightarrow> e \<in> set h \<Longrightarrow> role e \<noteq> ''assistant''
     \<Longrightarrow> e \<in> set h'"
proof (induction runs arbitrary: h)
  case Nil
  then show ?case by simp
next
  case (Cons run runs)
  from Cons.prems(1) obtain k where b: "run_body R mr lr h run = Inr k"
    and l: "run_loop R mr lr k runs = Inr h'"
    by (auto simp: then_do_eq_Inr)
  from b obtain tt msgs where "msg_loop R mr lr tt h msgs = Inr k"
    unfolding run_body_def then_do_eq_Inr by blast
  from this Cons.prems(2,3) have "e \<in> set k"
    by (rule msg_loop_keeps)
  from l this Cons.prems(3) show ?case
    by (rule Cons.IH)
qed

lemma run_loop_user:
  assumes "dict_get run ''messages'' (JArr []) = Inr messages"
    and "py_iter messages = Inr msgs" and "msg \<in> set msgs"
    and "dict_get msg ''role'' JNull = Inr (JStr ''user'')"
    and "dict_get msg ''content'' (JStr '''') = Inr c"
  shows "run_loop R mr lr h runs = Inr h' \<Longrightarrow> run \<in> set runs \<Longrightarrow>
     \<lparr>role = ''user'', content = (if c \<noteq> JNull then c else JStr ''''), metadata = None\<rparr>
       \<in> set h'"
proof (induction runs arbitrary: h)
  case Nil
  then show ?case by simp
next
  case (Cons r runs)
  let ?e = "\<lparr>role = ''user'', content = (if c \<noteq> JNull then c else JStr ''''),
             metadata = None\<rparr>"
  from Cons.prems(1) obtain k where b: "run_body R mr lr h r = Inr k"
    and l: "run_loop R mr lr k runs = Inr h'"
    by (auto simp: then_do_eq_Inr)
  show ?case
  proof (cases "r = run")
    case True
    with b assms(1,2) obtain tt where "msg_loop R mr lr tt h msgs = Inr k"
      by (auto simp: run_body_def then_do_eq_Inr)
    from msg_loop_user [OF assms(4,5) this assms(3)] have "?e \<in> set k" .
    moreover have "role ?e \<noteq> ''assistant''" by simp
    ultimately show ?thesis
      using l by (auto dest: run_loop_keeps)
  next
    case False
    with Cons.prems(2) have "run \<in> set runs" by simp
    with l show ?thesis
      by (rule Cons.IH)
  qed
qed

section \<open>The call without streaming: the messages after the last user message\<close>

lemma fold_max_ge:
  fixes a :: int
  shows "a \<le> fold max xs a \<and> (\<forall>x\<in>set xs. x \<le> fold max xs a)"
proof (induction xs arbitrary: a)
  case Nil
  then show ?case by simp
next
  case (Cons y ys)
  have 1: "max y a \<le> fold max ys (max y a)" and 2: "\<forall>x\<in>set ys. x \<le> fold max ys (max y a)"
    using Cons.IH [of "max y a"] by simp_all
  from 1 have "a \<le> fold max ys (max y a)" and "y \<le> fold max ys (max y a)"
    by simp_all
  with 2 show ?case by simp
qed

lemma last_user_index_ge:
  assumes "i < length ms" and "m_role (ms ! i) = ''user''"
  shows "int i \<le> last_user_index ms"
proof -
  from assms have "int i \<in> set (map int (filter (\<lambda>i. m_role (ms ! i) = ''user'') [0..<length ms]))"
    by simp
  with fold_max_ge [of "- 1" "map int (filter (\<lambda>i. m_role (ms ! i) = ''user'') [0..<length ms])"]
  show ?thesis
    unfolding last_user_index_def by blast
qed

lemma after_last_user_no_user:
  "\<forall>m\<in>set (after_last_user ms). m_role m \<noteq> ''user''"
proof
  fix m
  assume "m \<in> set (after_last_user ms)"
  then obtain j where j: "j < length ms - nat (last_user_index ms + 1)"
    and m: "m = ms ! (nat (last_user_index ms + 1) + j)"
    by (auto simp: after_last_user_def in_set_conv_nth)
  let ?i = "nat (last_user_index ms + 1) + j"
  from j have lt: "?i < length ms" by simp
  show "m_role m \<noteq> ''user''"
  proof
    assume "m_role m = ''user''"
    with m lt have "int ?i \<le> last_user_index ms"
      by (simp only: last_user_index_ge)
    moreover have "- 1 \<le> last_user_index ms"
      unfolding last_user_index_def using fold_max_ge by blast
    ultimately show False by simp
  qed
qed

lemma returned_loop_appends:
  "\<exists>new. fst (returned_loop R mr h ms) = h @ new \<and> (\<forall>e\<in>set new. role e = ''assistant'')"
proof (induction ms arbitrary: h)
  case Nil
  show ?case by simp
next
  case (Cons m ms)
  let ?started = "\<lparr>role = ''assistant'',
                    content = JStr (custom_content_started R (m_tool_name m) (m_tool_args m)),
                    metadata = Some ToolCallStarted\<rparr>"
  have ext: "\<exists>new. fst (returned_loop R mr (h @ xs) ms) = h @ new \<and>
               (\<forall>e\<in>set new. role e = ''assistant'')"
    if "\<forall>e\<in>set xs. role e = ''assistant''" for xs
  proof -
    from Cons.IH [of "h @ xs"] obtain new where
      "fst (returned_loop R mr (h @ xs) ms) = (h @ xs) @ new"
      and "\<forall>e\<in>set new. role e = ''assistant''"
      by blast
    with that have "fst (returned_loop R mr (h @ xs) ms) = h @ (xs @ new) \<and>
               (\<forall>e\<in>set (xs @ new). role e = ''assistant'')"
      by auto
    then show ?thesis by blast
  qed
  have plain: "role (plain_entry c) = ''assistant''" for c
    by (simp add: plain_entry_def)
  consider (tool_ok) result_text where "mr = ''ON''" "m_role m = ''tool''"
      "returned_result_text (m_content m) = Inr result_text"
    | (tool_raise) e where "mr = ''ON''" "m_role m = ''tool''"
      "returned_result_text (m_content m) = Inl e"
    | (assistant) "m_role m = ''assistant''" "\<not> (mr = ''ON'' \<and> m_role m = ''tool'')"
    | (skip) "m_role m \<noteq> ''assistant''" "\<not> (mr = ''ON'' \<and> m_role m = ''tool'')"
    by (cases "returned_result_text (m_content m)") auto
  then show ?case
  proof cases
    case tool_ok
    let ?completed = "\<lparr>role = ''assistant'',
                    content = JStr (custom_content_completed result_text ''N/A''),
                    metadata = Some ToolCallCompleted\<rparr>"
    from tool_ok have "returned_loop R mr h (m # ms) =
        returned_loop R mr (h @ [?started, ?completed]) ms"
      by (simp add: Let_def)
    with ext [of "[?started, ?completed]"] show ?thesis by simp
  next
    case tool_raise
    then have "fst (returned_loop R mr h (m # ms)) = h @ [?started]"
      by (simp add: Let_def)
    then show ?thesis by auto
  next
    case assistant
    then have "returned_loop R mr h (m # ms) =
        returned_loop R mr (h @ [plain_entry (m_content m)]) ms"
      by auto
    with ext [of "[plain_entry (m_content m)]"] plain show ?thesis by simp
  next
    case skip
    then have "returned_loop R mr h (m # ms) = returned_loop R mr h ms"
      by auto
    with ext [of "[]"] show ?thesis by simp
  qed
qed

lemma returned_loop_off:
  "mr \<noteq> ''ON'' \<Longrightarrow>
     returned_loop R mr h ms =
       (h @ map (\<lambda>m. plain_entry (m_content m)) (filter (\<lambda>m. m_role m = ''assistant'') ms),
        None)"
  by (induction ms arbitrary: h) simp_all

lemma scenario_after_last_user:
  "after_last_user scenario_returned =
     [\<lparr>m_role = ''tool'', m_content = JNull, m_tool_name = JStr ''search'',
        m_tool_args = JObj [(''q'', JStr ''x'')]\<rparr>,
      \<lparr>m_role = ''assistant'', m_content = JStr ''found it'', m_tool_name = JNull,
        m_tool_args = JNull\<rparr>]"
  by (simp add: after_last_user_def last_user_index_def scenario_returned_def upt_rec)

lemma scenario_returned_off:
  "returned_loop R ''OFF'' h (after_last_user scenario_returned) =
     (h @ [assistant_msg ''found it''], None)"
  by (simp add: scenario_after_last_user returned_loop_off plain_entry_def assistant_msg_def)

lemma returned_transcript:
  "\<exists>new. final_transcript (get_response R u h mr ''OFF'' chunks raised (Inr (Some ms)))
           = Some (h @ [user_entry u] @ new) \<and>
         (\<forall>e\<in>set new. role e = ''assistant'')"
proof -
  let ?h0 = "h @ [user_entry u, assistant_msg placeholder]"
  let ?h1 = "h @ [user_entry u, assistant_msg '''']"
  have c: "clear_placeholder ?h0 = Inr ?h1"
    by (simp add: clear_placeholder_def set_last_def assistant_msg_def placeholder_def
        butlast_append)
  obtain h2 r where l: "returned_loop R mr ?h1 (after_last_user ms) = (h2, r)"
    by (cases "returned_loop R mr ?h1 (after_last_user ms)") auto
  from returned_loop_appends [of R mr ?h1 "after_last_user ms"] l
  obtain new where h2: "h2 = ?h1 @ new" and a: "\<forall>e\<in>set new. role e = ''assistant''"
    by auto
  have t: "response_try R mr ''OFF'' chunks raised (Inr (Some ms)) ?h0 = (h2, [], r)"
    using c l by (simp add: response_try_def)
  show ?thesis
  proof (cases r)
    case None
    with t have "final_transcript (get_response R u h mr ''OFF'' chunks raised (Inr (Some ms)))
        = Some h2"
      by (simp add: get_response_def final_transcript_def idle_def)
    then have "final_transcript (get_response R u h mr ''OFF'' chunks raised (Inr (Some ms)))
        = Some (h @ [user_entry u] @ (assistant_msg '''' # new))"
      by (simp add: h2)
    moreover have "\<forall>e\<in>set (assistant_msg '''' # new). role e = ''assistant''"
      using a by (simp add: assistant_msg_def)
    ultimately show ?thesis by blast
  next
    case (Some e)
    have ne: "h2 \<noteq> []" by (simp add: h2)
    with t Some have f: "final_transcript
        (get_response R u h mr ''OFF'' chunks raised (Inr (Some ms)))
        = Some (butlast h2 @ [assistant_msg error_msg])"
      by (simp add: get_response_def final_transcript_def idle_def set_last_def)
    have "butlast h2 = h @ [user_entry u] @ butlast (assistant_msg '''' # new)"
      by (simp add: h2 butlast_append)
    with f have "final_transcript
        (get_response R u h mr ''OFF'' chunks raised (Inr (Some ms)))
        = Some (h @ [user_entry u] @ (butlast (assistant_msg '''' # new) @ [assistant_msg error_msg]))"
      by simp
    moreover have "\<forall>e\<in>set (butlast (assistant_msg '''' # new) @ [assistant_msg error_msg]).
        role e = ''assistant''"
      using a by (auto simp: assistant_msg_def dest: in_set_butlastD split: if_splits)
    ultimately show ?thesis by blast
  qed
qed

lemma scenario_returned_transcript:
  "final_transcript
     (get_response R ''hi'' h ''OFF'' ''OFF'' chunks raised (Inr (Some scenario_returned)))
   = Some (h @ [user_entry ''hi'', assistant_msg '''', assistant_msg ''found it''])"
proof -
  have c: "clear_placeholder (h @ [user_entry ''hi'', assistant_msg placeholder]) =
           Inr (h @ [user_entry ''hi'', assistant_msg ''''])"
    by (simp add: clear_placeholder_def set_last_def assistant_msg_def placeholder_def
        butlast_append)
  show ?thesis
    by (simp add: get_response_def response_try_def c scenario_returned_off
        final_transcript_def idle_def)
qed

lemma stored_user_messages:
  "(\<forall>msg c mr tt h.
      dict_get msg ''role'' JNull = Inr (JStr ''user'') \<and>
      dict_get msg ''content'' (JStr '''') = Inr c
      \<longrightarrow> msg_step R mr tt h msg =
            Inr (h @ [\<lparr>role = ''user'',
                        content = (if c \<noteq> JNull then c else JStr ''''),
                        metadata = None\<rparr>]))
   \<and> (\<forall>mr lr memory res runs run messages msgs msg c.
      reconstruct R mr lr memory = Inr res \<and> py_iter memory = Inr runs \<and> run \<in> set runs \<and>
      dict_get run ''messages'' (JArr []) = Inr messages \<and> py_iter messages = Inr msgs \<and>
      msg \<in> set msgs \<and>
      dict_get msg ''role'' JNull = Inr (JStr ''user'') \<and>
      dict_get msg ''content'' (JStr '''') = Inr c
      \<longrightarrow> (\<exists>m\<in>set res. role m = ''user'' \<and>
             hash_key (content m) = hash_key (if c \<noteq> JNull then c else JStr '''')))
   \<and> (\<forall>msg mr tt h.
      dict_get msg ''role'' JNull = Inr (JStr ''tool'') \<and> mr \<noteq> ''ON''
      \<longrightarrow> msg_step R mr tt h msg = Inr h)
   \<and> reconstruct R ''OFF'' ''OFF'' scenario_record =
       Inr [\<lparr>role = ''user'', content = JStr ''hi'', metadata = None\<rparr>,
            \<lparr>role = ''assistant'', content = JStr ''found it'', metadata = None\<rparr>]"
proof (intro conjI allI impI)
  fix msg c mr tt h
  assume a: "dict_get msg ''role'' JNull = Inr (JStr ''user'') \<and>
             dict_get msg ''content'' (JStr '''') = Inr c"
  then obtain kvs where "msg = JObj kvs"
    by (cases msg) simp_all
  with a show "msg_step R mr tt h msg =
            Inr (h @ [\<lparr>role = ''user'',
                        content = (if c \<noteq> JNull then c else JStr ''''),
                        metadata = None\<rparr>])"
    by (simp add: msg_step_def)
next
  fix mr lr memory res runs run messages msgs msg c
  let ?e = "\<lparr>role = ''user'', content = (if c \<noteq> JNull then c else JStr ''''),
             metadata = None\<rparr>"
  assume a: "reconstruct R mr lr memory = Inr res \<and> py_iter memory = Inr runs \<and>
      run \<in> set runs \<and>
      dict_get run ''messages'' (JArr []) = Inr messages \<and> py_iter messages = Inr msgs \<and>
      msg \<in> set msgs \<and>
      dict_get msg ''role'' JNull = Inr (JStr ''user'') \<and>
      dict_get msg ''content'' (JStr '''') = Inr c"
  then obtain h where l: "run_loop R mr lr [] runs = Inr h" and d: "dedupe h = Inr res"
    by (auto simp: reconstruct_def then_do_eq_Inr)
  from a have a1: "dict_get run ''messages'' (JArr []) = Inr messages"
    and a2: "py_iter messages = Inr msgs" and a3: "msg \<in> set msgs"
    and a4: "dict_get msg ''role'' JNull = Inr (JStr ''user'')"
    and a5: "dict_get msg ''content'' (JStr '''') = Inr c" and a6: "run \<in> set runs"
    by simp_all
  have "?e \<in> set h"
    using a1 a2 a3 a4 a5 l a6 by (rule run_loop_user)
  moreover from d have "\<forall>m\<in>set h. hashable m"
    unfolding dedupe_def by (rule dedupe_loop_hashable)
  with d have "res = dedupe_spec h"
    by (simp add: dedupe_is_spec)
  then have "ident ` set res = ident ` set h"
    by (simp add: dedupe_spec_set)
  ultimately have "ident ?e \<in> ident ` set res"
    by blast
  then obtain m where "m \<in> set res" and "ident m = ident ?e"
    by auto
  then show "\<exists>m\<in>set res. role m = ''user'' \<and>
             hash_key (content m) = hash_key (if c \<noteq> JNull then c else JStr '''')"
    by (auto simp: ident_def)
next
  fix msg mr tt h
  assume a: "dict_get msg ''role'' JNull = Inr (JStr ''tool'') \<and> mr \<noteq> ''ON''"
  then obtain kvs where "msg = JObj kvs"
    by (cases msg) simp_all
  with a show "msg_step R mr tt h msg = Inr h"
    by (simp add: msg_step_def)
next
  show "reconstruct R ''OFF'' ''OFF'' scenario_record =
       Inr [\<lparr>role = ''user'', content = JStr ''hi'', metadata = None\<rparr>,
            \<lparr>role = ''assistant'', content = JStr ''found it'', metadata = None\<rparr>]"
    by (rule scenario_off)
qed

lemma bad_message_raises:
  "reconstruct R mr lr
     (JArr [JObj [(''messages'', JArr
        [JObj [(''role'', JStr ''user''), (''content'', JStr ''hi'')], JInt 5])]])
   = Inl AttributeError"
  by (simp add: reconstruct_def run_body_def msg_body_def msg_step_def latex_trigger_def)

text \<open>
  Claim C6, amended. The two places that rebuild entries from the messages of a run
  differ. In \<^verbatim>\<open>get_response\<close> without streaming, the messages of a run are never
  emitted again as user entries: the messages processed are those after the last user
  message, none of which is a user message; every entry the loop appends is an
  assistant entry, so the final transcript is the history before the call, the entry
  of the message submitted, and assistant entries; with the display not on the loop
  appends exactly the assistant messages; on the messages of the scenario with the
  display off it appends exactly \<^verbatim>\<open>assistant:"found it"\<close>, after the user entry of the
  submission and the emptied placeholder. In \<^verbatim>\<open>load_sessions_history\<close>, a stored
  message with the role user appends a user entry with its content (the empty string
  when the content is null), whatever the setting of the metadata display; whenever
  the reconstruction returns without raising, the transcript has a user entry with the
  content of every stored user message (when it raises, as on a message that is not an
  object, nothing is returned and the transcript of the function is empty); with the
  display not on a tool message appends nothing; the record of the scenario with the
  display off gives the two entries \<^verbatim>\<open>user:"hi"\<close> and \<^verbatim>\<open>assistant:"found it"\<close>.
\<close>

theorem user_messages_emitted:
  "(\<forall>ms. \<forall>m\<in>set (after_last_user ms). m_role m \<noteq> ''user'')
   \<and> (\<forall>mr h ms. \<exists>new. fst (returned_loop R mr h ms) = h @ new \<and>
                        (\<forall>e\<in>set new. role e = ''assistant''))
   \<and> (\<forall>u h mr chunks raised ms.
        \<exists>new. final_transcript (get_response R u h mr ''OFF'' chunks raised (Inr (Some ms)))
                 = Some (h @ [user_entry u] @ new) \<and>
               (\<forall>e\<in>set new. role e = ''assistant''))
   \<and> (\<forall>mr h ms. mr \<noteq> ''ON'' \<longrightarrow>
        returned_loop R mr h ms =
          (h @ map (\<lambda>m. plain_entry (m_content m)) (filter (\<lambda>m. m_role m = ''assistant'') ms),
           None))
   \<and> (\<forall>h. returned_loop R ''OFF'' h (after_last_user scenario_returned) =
          (h @ [assistant_msg ''found it''], None))
   \<and> (\<forall>h chunks raised.
        final_transcript
          (get_response R ''hi'' h ''OFF'' ''OFF'' chunks raised (Inr (Some scenario_returned)))
        = Some (h @ [user_entry ''hi'', assistant_msg '''', assistant_msg ''found it'']))
   \<and> (\<forall>msg c mr tt h.
      dict_get msg ''role'' JNull = Inr (JStr ''user'') \<and>
      dict_get msg ''content'' (JStr '''') = Inr c
      \<longrightarrow> msg_step R mr tt h msg =
            Inr (h @ [\<lparr>role = ''user'',
                        content = (if c \<noteq> JNull then c else JStr ''''),
                        metadata = None\<rparr>]))
   \<and> (\<forall>mr lr memory res runs run messages msgs msg c.
      reconstruct R mr lr memory = Inr res \<and> py_iter memory = Inr runs \<and> run \<in> set runs \<and>
      dict_get run ''messages'' (JArr []) = Inr messages \<and> py_iter messages = Inr msgs \<and>
      msg \<in> set msgs \<and>
      dict_get msg ''role'' JNull = Inr (JStr ''user'') \<and>
      dict_get msg ''content'' (JStr '''') = Inr c
      \<longrightarrow> (\<exists>m\<in>set res. role m = ''user'' \<and>
             hash_key (content m) = hash_key (if c \<noteq> JNull then c else JStr '''')))
   \<and> (\<forall>mr lr. reconstruct R mr lr
          (JArr [JObj [(''messages'', JArr
             [JObj [(''role'', JStr ''user''), (''content'', JStr ''hi'')], JInt 5])]])
        = Inl AttributeError)
   \<and> (\<forall>msg mr tt h.
      dict_get msg ''role'' JNull = Inr (JStr ''tool'') \<and> mr \<noteq> ''ON''
      \<longrightarrow> msg_step R mr tt h msg = Inr h)
   \<and> reconstruct R ''OFF'' ''OFF'' scenario_record =
       Inr [\<lparr>role = ''user'', content = JStr ''hi'', metadata = None\<rparr>,
            \<lparr>role = ''assistant'', content = JStr ''found it'', metadata = None\<rparr>]"
proof -
  note stored = stored_user_messages [of R]
  note s1 = stored [THEN conjunct1]
  note s2 = stored [THEN conjunct2, THEN conjunct1]
  note s3 = stored [THEN conjunct2, THEN conjunct2, THEN conjunct1]
  note s4 = stored [THEN conjunct2, THEN conjunct2, THEN conjunct2]
  have 1: "\<forall>ms. \<forall>m\<in>set (after_last_user ms). m_role m \<noteq> ''user''"
    using after_last_user_no_user by blast
  have 2: "\<forall>mr h ms. \<exists>new. fst (returned_loop R mr h ms) = h @ new \<and>
                        (\<forall>e\<in>set new. role e = ''assistant'')"
    using returned_loop_appends by blast
  have 3: "\<forall>u h mr chunks raised ms.
        \<exists>new. final_transcript (get_response R u h mr ''OFF'' chunks raised (Inr (Some ms)))
                 = Some (h @ [user_entry u] @ new) \<and>
               (\<forall>e\<in>set new. role e = ''assistant'')"
    using returned_transcript by blast
  have 4: "\<forall>mr h ms. mr \<noteq> ''ON'' \<longrightarrow>
        returned_loop R mr h ms =
          (h @ map (\<lambda>m. plain_entry (m_content m)) (filter (\<lambda>m. m_role m = ''assistant'') ms),
           None)"
    using returned_loop_off by blast
  have 5: "\<forall>h. returned_loop R ''OFF'' h (after_last_user scenario_returned) =
          (h @ [assistant_msg ''found it''], None)"
    using scenario_returned_off by blast
  have 6: "\<forall>h chunks raised.
        final_transcript
          (get_response R ''hi'' h ''OFF'' ''OFF'' chunks raised (Inr (Some scenario_returned)))
        = Some (h @ [user_entry ''hi'', assistant_msg '''', assistant_msg ''found it''])"
    using scenario_returned_transcript by blast
  have 7: "\<forall>mr lr. reconstruct R mr lr
          (JArr [JObj [(''messages'', JArr
             [JObj [(''role'', JStr ''user''), (''content'', JStr ''hi'')], JInt 5])]])
        = Inl AttributeError"
    using bad_message_raises by blast
  show ?thesis
    by (intro conjI 1 2 3 4 5 6 s1 s2 7 s3 s4)
qed

theorem user_messages_emitted_witness:
  "dict_get (JObj [(''role'', JStr ''user''), (''content'', JStr ''hi'')]) ''role'' JNull
     = Inr (JStr ''user'')
   \<and> dict_get (JObj [(''role'', JStr ''user''), (''content'', JStr ''hi'')]) ''content'' (JStr '''')
     = Inr (JStr ''hi'')
   \<and> msg_step plain_repr ''ON'' Map.empty []
        (JObj [(''role'', JStr ''user''), (''content'', JStr ''hi'')])
     = Inr [\<lparr>role = ''user'', content = JStr ''hi'', metadata = None\<rparr>]
   \<and> reconstruct plain_repr ''OFF'' ''OFF'' scenario_record =
       Inr [\<lparr>role = ''user'', content = JStr ''hi'', metadata = None\<rparr>,
            \<lparr>role = ''assistant'', content = JStr ''found it'', metadata = None\<rparr>]
   \<and> py_iter scenario_record = Inr [scenario_run]
   \<and> scenario_run \<in> set [scenario_run]
   \<and> dict_get scenario_run ''messages'' (JArr []) = Inr (JArr scenario_messages)
   \<and> py_iter (JArr scenario_messages) = Inr scenario_messages
   \<and> JObj [(''role'', JStr ''user''), (''content'', JStr ''hi'')] \<in> set scenario_messages
   \<and> (\<exists>m\<in>set [\<lparr>role = ''user'', content = JStr ''hi'', metadata = None\<rparr>,
                  \<lparr>role = ''assistant'', content = JStr ''found it'', metadata = None\<rparr>].
         role m = ''user'' \<and> hash_key (content m) = hash_key (JStr ''hi''))
   \<and> dict_get (JObj [(''role'', JStr ''tool'')]) ''role'' JNull = Inr (JStr ''tool'')
   \<and> ''OFF'' \<noteq> ''ON''
   \<and> msg_step plain_repr ''OFF'' Map.empty [] (JObj [(''role'', JStr ''tool'')]) = Inr []
   \<and> returned_loop plain_repr ''OFF'' [] scenario_returned
       = ([assistant_msg ''found it''], None)"
proof -
  let ?msg = "JObj [(''role'', JStr ''user''), (''content'', JStr ''hi'')]"
  have r: "dict_get ?msg ''role'' JNull = Inr (JStr ''user'')"
    by simp
  have c: "dict_get ?msg ''content'' (JStr '''') = Inr (JStr ''hi'')"
    by simp
  have t: "dict_get (JObj [(''role'', JStr ''tool'')]) ''role'' JNull = Inr (JStr ''tool'')"
    by simp
  have o: "''OFF'' \<noteq> ''ON''"
    by simp
  have rec: "reconstruct plain_repr ''OFF'' ''OFF'' scenario_record =
       Inr [\<lparr>role = ''user'', content = JStr ''hi'', metadata = None\<rparr>,
            \<lparr>role = ''assistant'', content = JStr ''found it'', metadata = None\<rparr>]"
    by (rule scenario_off)
  have it: "py_iter scenario_record = Inr [scenario_run]"
    by (simp add: scenario_record_def)
  have mem: "scenario_run \<in> set [scenario_run]"
    by simp
  have ms: "dict_get scenario_run ''messages'' (JArr []) = Inr (JArr scenario_messages)"
    by (simp add: scenario_run_def)
  have im: "py_iter (JArr scenario_messages) = Inr scenario_messages"
    by simp
  have mm: "?msg \<in> set scenario_messages"
    by (simp add: scenario_messages_def)
  note step = user_messages_emitted [of plain_repr, THEN conjunct2, THEN conjunct2, THEN conjunct2, THEN conjunct2, THEN conjunct2, THEN conjunct2, THEN conjunct1, rule_format]
  note whole = user_messages_emitted [of plain_repr, THEN conjunct2, THEN conjunct2, THEN conjunct2, THEN conjunct2, THEN conjunct2, THEN conjunct2, THEN conjunct2, THEN conjunct1,
      THEN spec, THEN spec, THEN spec, THEN spec, THEN spec, THEN spec, THEN spec,
      THEN spec, THEN spec, THEN spec, THEN mp]
  note skip = user_messages_emitted [of plain_repr, THEN conjunct2, THEN conjunct2, THEN conjunct2, THEN conjunct2, THEN conjunct2, THEN conjunct2, THEN conjunct2, THEN conjunct2, THEN conjunct2, THEN conjunct1, rule_format]
  note off = user_messages_emitted [of plain_repr, THEN conjunct2, THEN conjunct2, THEN conjunct2, THEN conjunct1, rule_format]
  have 1: "msg_step plain_repr ''ON'' Map.empty [] ?msg
     = Inr [\<lparr>role = ''user'', content = JStr ''hi'', metadata = None\<rparr>]"
    using step [OF conjI [OF r c], of "''ON''" Map.empty "[]"] by simp
  have 2: "\<exists>m\<in>set [\<lparr>role = ''user'', content = JStr ''hi'', metadata = None\<rparr>,
                  \<lparr>role = ''assistant'', content = JStr ''found it'', metadata = None\<rparr>].
         role m = ''user'' \<and> hash_key (content m) = hash_key (JStr ''hi'')"
    using whole [OF conjI [OF rec conjI [OF it conjI [OF mem conjI [OF ms conjI [OF im
        conjI [OF mm conjI [OF r c]]]]]]]]
    by simp
  have 3: "msg_step plain_repr ''OFF'' Map.empty [] (JObj [(''role'', JStr ''tool'')]) = Inr []"
    using skip [OF conjI [OF t o], of Map.empty "[]"] by simp
  have 4: "returned_loop plain_repr ''OFF'' [] scenario_returned
       = ([assistant_msg ''found it''], None)"
    using off [OF o, of "[]" scenario_returned]
    by (simp add: scenario_returned_def plain_entry_def assistant_msg_def)
  show ?thesis
    by (intro conjI r c 1 rec it mem ms im mm 2 t o 3 4)
qed

section \<open>The live path and the batch reconstruction compared\<close>

lemma tool_free_step:
  assumes "tool_free c" and "chat_history s \<noteq> []"
  shows "chunk_step R mr s c =
           (if is_fragment c then
              (\<lparr>chat_history = butlast (chat_history s)
                   @ [assistant_msg (stream_response s @ fragments [c])],
                 stream_response = stream_response s @ fragments [c]\<rparr>,
               [busy (butlast (chat_history s)
                   @ [assistant_msg (stream_response s @ fragments [c])])], None)
            else (s, [], None))"
  using assms
  by (auto simp: tool_free_def chunk_step_def is_fragment_def fragments_def set_last_def Let_def
      split: json.splits)

lemma fragments_Cons:
  "fragments (c # cs) = fragments [c] @ fragments cs"
  by (simp add: fragments_def)

lemma fragments_not [simp]: "\<not> is_fragment c \<Longrightarrow> fragments [c] = []"
  by (simp add: fragments_def)

lemma fragments_none: "\<forall>c\<in>set cs. \<not> is_fragment c \<Longrightarrow> fragments cs = []"
  by (simp add: fragments_def filter_empty_conv [THEN iffD2])

lemma tool_free_loop:
  "\<forall>c\<in>set cs. tool_free c \<Longrightarrow> chat_history s \<noteq> [] \<Longrightarrow>
     snd (snd (stream_loop R mr s cs)) = None \<and>
     stream_response (fst (stream_loop R mr s cs)) = stream_response s @ fragments cs \<and>
     chat_history (fst (stream_loop R mr s cs)) =
       (if \<exists>c\<in>set cs. is_fragment c
        then butlast (chat_history s) @ [assistant_msg (stream_response s @ fragments cs)]
        else chat_history s)"
proof (induction cs arbitrary: s)
  case Nil
  then show ?case by (simp add: fragments_def)
next
  case (Cons c cs)
  have tf: "tool_free c" and rest: "\<forall>c\<in>set cs. tool_free c"
    using Cons.prems(1) by simp_all
  note step = tool_free_step [OF tf Cons.prems(2), of R mr]
  show ?case
  proof (cases "is_fragment c")
    case False
    with step have s: "chunk_step R mr s c = (s, [], None)" by simp
    obtain s2 ys2 r2 where l: "stream_loop R mr s cs = (s2, ys2, r2)"
      by (cases "stream_loop R mr s cs") auto
    from Cons.IH [OF rest Cons.prems(2)] l have
      "r2 = None" "stream_response s2 = stream_response s @ fragments cs"
      "chat_history s2 =
       (if \<exists>c\<in>set cs. is_fragment c
        then butlast (chat_history s) @ [assistant_msg (stream_response s @ fragments cs)]
        else chat_history s)"
      by simp_all
    with s l False show ?thesis
      by (simp add: fragments_Cons [of c cs])
  next
    case True
    let ?s1 = "\<lparr>chat_history = butlast (chat_history s)
                   @ [assistant_msg (stream_response s @ fragments [c])],
                 stream_response = stream_response s @ fragments [c]\<rparr>"
    from step True have s: "chunk_step R mr s c = (?s1, [busy (chat_history ?s1)], None)"
      by simp
    have ne: "chat_history ?s1 \<noteq> []" by simp
    obtain s2 ys2 r2 where l: "stream_loop R mr ?s1 cs = (s2, ys2, r2)"
      by (cases "stream_loop R mr ?s1 cs") auto
    from Cons.IH [OF rest ne] l have r2: "r2 = None"
      and sr: "stream_response s2 = stream_response s @ fragments [c] @ fragments cs"
      and h: "chat_history s2 =
       (if \<exists>c\<in>set cs. is_fragment c
        then butlast (chat_history s)
               @ [assistant_msg (stream_response s @ fragments [c] @ fragments cs)]
        else butlast (chat_history s) @ [assistant_msg (stream_response s @ fragments [c])])"
      by simp_all
    have h': "chat_history s2 =
        butlast (chat_history s)
          @ [assistant_msg (stream_response s @ fragments [c] @ fragments cs)]"
    proof (cases "\<exists>c\<in>set cs. is_fragment c")
      case True
      with h show ?thesis by simp
    next
      case False
      then have "fragments cs = []" by (simp add: fragments_none)
      with h False show ?thesis by simp
    qed
    from s l r2 sr h' True show ?thesis
      by (simp add: fragments_Cons [of c cs])
  qed
qed

lemma format_one: "format_f 3 1 = ''1.000''" "format_f 4 1 = ''1.0000''"
  by (simp_all add: format_f_def round_half_even_def dec.simps numeral_2_eq_2 numeral_3_eq_3)

lemma scenario_live:
  "fst (stream_loop plain_repr ''ON''
     \<lparr>chat_history = [user_entry ''hi'', assistant_msg placeholder], stream_response = ''''\<rparr>
     scenario_chunks)
   = \<lparr>chat_history =
        [user_entry ''hi'', assistant_msg '''',
         \<lparr>role = ''assistant'',
           content = JStr ''\<newline>**Tool:** `search`\<newline>**Arguments:** `{'q': 'x'}`\<newline>'',
           metadata = Some ToolCallStarted\<rparr>,
         \<lparr>role = ''assistant'',
           content = JStr ''\<newline>**Results:** \<newline>\<newline>**Execution time:** 1.0000s'',
           metadata = Some ToolCallCompleted\<rparr>,
         assistant_msg ''found it''],
      stream_response = ''found it''\<rparr>"
  "snd (snd (stream_loop plain_repr ''ON''
     \<lparr>chat_history = [user_entry ''hi'', assistant_msg placeholder], stream_response = ''''\<rparr>
     scenario_chunks)) = None"
  by (simp_all add: scenario_chunks_def chunk_step_def clear_placeholder_def set_last_def
      assistant_msg_def placeholder_def custom_content_started_def str_of_def
      plain_repr_def live_completed_content_def format_one Let_def)

lemma scenario_loop_on:
  "msg_loop plain_repr ''ON'' ''OFF'' [KNum 1 \<mapsto> (JInt 0, JInt 1)] [] scenario_messages =
     Inr [user_entry ''hi'',
          \<lparr>role = ''assistant'',
            content = JStr ''\<newline>**Tool:** `search`\<newline>**Arguments:** `{'q': 'x'}`\<newline>'',
            metadata = Some ToolCallStarted\<rparr>,
          \<lparr>role = ''assistant'',
            content = JStr ''**Results:**\<newline>\<newline>**Execution time:** 1.000s'',
            metadata = Some ToolCallCompleted\<rparr>,
          assistant_msg ''found it'']"
proof -
  have e: "exec_time_of [KNum 1 \<mapsto> (JInt 0, JInt 1)] (JInt 1) = Inr ''1.000s''"
    by (simp add: exec_time_of_def py_sub_def format_one)
  show ?thesis
    by (simp add: scenario_messages_def msg_body_def msg_step_def e custom_content_started_def
        custom_content_completed_def result_text_of_def str_of_def plain_repr_def
        user_entry_def assistant_msg_def)
qed

lemma scenario_on:
  "reconstruct plain_repr ''ON'' ''OFF'' scenario_record =
     Inr [user_entry ''hi'',
          \<lparr>role = ''assistant'',
            content = JStr ''\<newline>**Tool:** `search`\<newline>**Arguments:** `{'q': 'x'}`\<newline>'',
            metadata = Some ToolCallStarted\<rparr>,
          \<lparr>role = ''assistant'',
            content = JStr ''**Results:**\<newline>\<newline>**Execution time:** 1.000s'',
            metadata = Some ToolCallCompleted\<rparr>,
          assistant_msg ''found it'']"
  by (simp add: scenario_record_def scenario_run_def reconstruct_def run_body_def scenario_times
      scenario_loop_on dedupe_def user_entry_def assistant_msg_def)

text \<open>
  Claim C1 as stated fails. For the record of the scenario and the stream of the same
  run, with the metadata display on, the live transcript has an empty assistant entry
  where the placeholder was and words the completed tool call differently (a line
  break in front, a space after the heading, four decimals); the two transcripts
  differ also when entries with empty content are left out.
\<close>

theorem live_differs_from_batch_counterexample:
  "final_transcript
     (get_response plain_repr ''hi'' [] ''ON'' ''ON'' scenario_chunks None (Inr None))
   = Some [user_entry ''hi'', assistant_msg '''',
         \<lparr>role = ''assistant'',
           content = JStr ''\<newline>**Tool:** `search`\<newline>**Arguments:** `{'q': 'x'}`\<newline>'',
           metadata = Some ToolCallStarted\<rparr>,
         \<lparr>role = ''assistant'',
           content = JStr ''\<newline>**Results:** \<newline>\<newline>**Execution time:** 1.0000s'',
           metadata = Some ToolCallCompleted\<rparr>,
         assistant_msg ''found it'']
   \<and> reconstruct plain_repr ''ON'' ''OFF'' scenario_record
   = Inr [user_entry ''hi'',
          \<lparr>role = ''assistant'',
            content = JStr ''\<newline>**Tool:** `search`\<newline>**Arguments:** `{'q': 'x'}`\<newline>'',
            metadata = Some ToolCallStarted\<rparr>,
          \<lparr>role = ''assistant'',
            content = JStr ''**Results:**\<newline>\<newline>**Execution time:** 1.000s'',
            metadata = Some ToolCallCompleted\<rparr>,
          assistant_msg ''found it'']
   \<and> filter (\<lambda>m. content m \<noteq> JStr '''')
       [user_entry ''hi'', assistant_msg '''',
         \<lparr>role = ''assistant'',
           content = JStr ''\<newline>**Tool:** `search`\<newline>**Arguments:** `{'q': 'x'}`\<newline>'',
           metadata = Some ToolCallStarted\<rparr>,
         \<lparr>role = ''assistant'',
           content = JStr ''\<newline>**Results:** \<newline>\<newline>**Execution time:** 1.0000s'',
           metadata = Some ToolCallCompleted\<rparr>,
         assistant_msg ''found it'']
     \<noteq> [user_entry ''hi'',
          \<lparr>role = ''assistant'',
            content = JStr ''\<newline>**Tool:** `search`\<newline>**Arguments:** `{'q': 'x'}`\<newline>'',
            metadata = Some ToolCallStarted\<rparr>,
          \<lparr>role = ''assistant'',
            content = JStr ''**Results:**\<newline>\<newline>**Execution time:** 1.000s'',
            metadata = Some ToolCallCompleted\<rparr>,
          assistant_msg ''found it'']"
proof (intro conjI)
  obtain s ys r where l: "stream_loop plain_repr ''ON''
     \<lparr>chat_history = [user_entry ''hi'', assistant_msg placeholder], stream_response = ''''\<rparr>
     scenario_chunks = (s, ys, r)"
    by (cases "stream_loop plain_repr ''ON''
     \<lparr>chat_history = [user_entry ''hi'', assistant_msg placeholder], stream_response = ''''\<rparr>
     scenario_chunks") auto
  with scenario_live have "r = None" and "chat_history s =
        [user_entry ''hi'', assistant_msg '''',
         \<lparr>role = ''assistant'',
           content = JStr ''\<newline>**Tool:** `search`\<newline>**Arguments:** `{'q': 'x'}`\<newline>'',
           metadata = Some ToolCallStarted\<rparr>,
         \<lparr>role = ''assistant'',
           content = JStr ''\<newline>**Results:** \<newline>\<newline>**Execution time:** 1.0000s'',
           metadata = Some ToolCallCompleted\<rparr>,
         assistant_msg ''found it'']"
    by simp_all
  with l show "final_transcript
     (get_response plain_repr ''hi'' [] ''ON'' ''ON'' scenario_chunks None (Inr None))
   = Some [user_entry ''hi'', assistant_msg '''',
         \<lparr>role = ''assistant'',
           content = JStr ''\<newline>**Tool:** `search`\<newline>**Arguments:** `{'q': 'x'}`\<newline>'',
           metadata = Some ToolCallStarted\<rparr>,
         \<lparr>role = ''assistant'',
           content = JStr ''\<newline>**Results:** \<newline>\<newline>**Execution time:** 1.0000s'',
           metadata = Some ToolCallCompleted\<rparr>,
         assistant_msg ''found it'']"
    by (simp add: get_response_def response_try_def final_transcript_def idle_def
        del: stream_loop.simps)
next
  show "reconstruct plain_repr ''ON'' ''OFF'' scenario_record
   = Inr [user_entry ''hi'',
          \<lparr>role = ''assistant'',
            content = JStr ''\<newline>**Tool:** `search`\<newline>**Arguments:** `{'q': 'x'}`\<newline>'',
            metadata = Some ToolCallStarted\<rparr>,
          \<lparr>role = ''assistant'',
            content = JStr ''**Results:**\<newline>\<newline>**Execution time:** 1.000s'',
            metadata = Some ToolCallCompleted\<rparr>,
          assistant_msg ''found it'']"
    by (rule scenario_on)
next
  show "filter (\<lambda>m. content m \<noteq> JStr '''')
       [user_entry ''hi'', assistant_msg '''',
         \<lparr>role = ''assistant'',
           content = JStr ''\<newline>**Tool:** `search`\<newline>**Arguments:** `{'q': 'x'}`\<newline>'',
           metadata = Some ToolCallStarted\<rparr>,
         \<lparr>role = ''assistant'',
           content = JStr ''\<newline>**Results:** \<newline>\<newline>**Execution time:** 1.0000s'',
           metadata = Some ToolCallCompleted\<rparr>,
         assistant_msg ''found it'']
     \<noteq> [user_entry ''hi'',
          \<lparr>role = ''assistant'',
            content = JStr ''\<newline>**Tool:** `search`\<newline>**Arguments:** `{'q': 'x'}`\<newline>'',
            metadata = Some ToolCallStarted\<rparr>,
          \<lparr>role = ''assistant'',
            content = JStr ''**Results:**\<newline>\<newline>**Execution time:** 1.000s'',
            metadata = Some ToolCallCompleted\<rparr>,
          assistant_msg ''found it'']"
    by (simp add: user_entry_def assistant_msg_def)
qed

lemma no_tool_events:
  "\<forall>ev\<in>set evs. no_tool_key ev \<Longrightarrow> build_tool_times tt evs = Inr tt"
proof (induction evs)
  case Nil
  then show ?case by simp
next
  case (Cons ev evs)
  then obtain kvs where "ev = JObj kvs" and "map_of kvs ''tool'' = None"
    by (auto simp: no_tool_key_def split: json.splits)
  then have "event_step tt ev = Inr tt"
    by (simp add: event_step_def)
  with Cons show ?case by simp
qed

lemma stored_run_batch:
  assumes "\<forall>ev\<in>set evs. no_tool_key ev" and "lr \<noteq> ''ON''"
  shows "reconstruct R mr lr (JArr [stored_run u a evs]) = Inr [user_entry u, assistant_msg a]"
proof -
  have t: "build_tool_times Map.empty evs = Inr Map.empty"
    using assms(1) by (rule no_tool_events)
  have l: "msg_loop R mr lr tt []
             [JObj [(''role'', JStr ''user''), (''content'', JStr u)],
              JObj [(''role'', JStr ''assistant''), (''content'', JStr a)]]
           = Inr [user_entry u, assistant_msg a]" for tt
    using assms(2) by (simp add: msg_body_def msg_step_def user_entry_def assistant_msg_def)
  have d: "dedupe [user_entry u, assistant_msg a] = Inr [user_entry u, assistant_msg a]"
    by (simp add: dedupe_def user_entry_def assistant_msg_def)
  show ?thesis
    by (simp add: reconstruct_def stored_run_def run_body_def t l d del: msg_loop.simps)
qed

text \<open>
  Claim C1, amended. For a first turn without tool calls, the two paths agree: when the
  stream of the run has no tool events and at least one string fragment and ends
  normally, the final live transcript is the user entry followed by one assistant
  entry that holds the fragments in order, and so is the reconstruction (without the
  normalisation) of the stored run that holds the user message, that answer and events
  without a tool; this holds for either setting of the metadata display.
\<close>

theorem live_equals_batch_without_tools:
  assumes "\<forall>c\<in>set chunks. tool_free c" and "\<exists>c\<in>set chunks. is_fragment c"
    and "\<forall>ev\<in>set evs. no_tool_key ev" and "lr \<noteq> ''ON''"
  shows "final_transcript (get_response R u [] mr ''ON'' chunks None returned)
           = Some [user_entry u, assistant_msg (fragments chunks)]
         \<and> reconstruct R mr lr (JArr [stored_run u (fragments chunks) evs])
           = Inr [user_entry u, assistant_msg (fragments chunks)]"
proof
  let ?s0 = "\<lparr>chat_history = [user_entry u, assistant_msg placeholder], stream_response = ''''\<rparr>"
  obtain s ys r where l: "stream_loop R mr ?s0 chunks = (s, ys, r)"
    by (cases "stream_loop R mr ?s0 chunks") auto
  have "chat_history ?s0 \<noteq> []" by simp
  from tool_free_loop [OF assms(1) this, of R mr] l assms(2)
  have "r = None" and "chat_history s = [user_entry u, assistant_msg (fragments chunks)]"
    by simp_all
  with l show "final_transcript (get_response R u [] mr ''ON'' chunks None returned)
           = Some [user_entry u, assistant_msg (fragments chunks)]"
    by (simp add: get_response_def response_try_def final_transcript_def idle_def)
next
  show "reconstruct R mr lr (JArr [stored_run u (fragments chunks) evs])
           = Inr [user_entry u, assistant_msg (fragments chunks)]"
    using assms(3,4) by (rule stored_run_batch)
qed

theorem live_equals_batch_without_tools_witness:
  "tool_free (ex_content_chunk ''found'') \<and> tool_free (ex_content_chunk '' it'')
   \<and> is_fragment (ex_content_chunk ''found'')
   \<and> no_tool_key (JObj [(''event'', JStr ''RunContent'')])
   \<and> ''OFF'' \<noteq> ''ON''
   \<and> fragments [ex_content_chunk ''found'', ex_content_chunk '' it''] = ''found it''
   \<and> final_transcript
        (get_response plain_repr ''hi'' [] ''ON'' ''ON''
           [ex_content_chunk ''found'', ex_content_chunk '' it''] None (Inr None))
      = Some [user_entry ''hi'', assistant_msg ''found it'']
   \<and> reconstruct plain_repr ''ON'' ''OFF''
        (JArr [stored_run ''hi'' ''found it'' [JObj [(''event'', JStr ''RunContent'')]]])
      = Inr [user_entry ''hi'', assistant_msg ''found it'']"
proof -
  have a1: "tool_free (ex_content_chunk ''found'')" and a2: "tool_free (ex_content_chunk '' it'')"
    by (simp_all add: tool_free_def ex_content_chunk_def)
  have b1: "is_fragment (ex_content_chunk ''found'')"
    by (simp add: is_fragment_def ex_content_chunk_def)
  have c1: "no_tool_key (JObj [(''event'', JStr ''RunContent'')])"
    by (simp add: no_tool_key_def)
  have a: "\<forall>c\<in>set [ex_content_chunk ''found'', ex_content_chunk '' it'']. tool_free c"
    using a1 a2 by simp
  have b: "\<exists>c\<in>set [ex_content_chunk ''found'', ex_content_chunk '' it'']. is_fragment c"
    using b1 by simp
  have c: "\<forall>ev\<in>set [JObj [(''event'', JStr ''RunContent'')]]. no_tool_key ev"
    using c1 by simp
  have d: "''OFF'' \<noteq> ''ON''"
    by simp
  have f: "fragments [ex_content_chunk ''found'', ex_content_chunk '' it''] = ''found it''"
    by (simp add: fragments_def is_fragment_def ex_content_chunk_def)
  from live_equals_batch_without_tools [OF a b c d, of plain_repr "''hi''" "''ON''" "Inr None"]
  have "final_transcript
        (get_response plain_repr ''hi'' [] ''ON'' ''ON''
           [ex_content_chunk ''found'', ex_content_chunk '' it''] None (Inr None))
      = Some [user_entry ''hi'', assistant_msg ''found it'']"
    and "reconstruct plain_repr ''ON'' ''OFF''
        (JArr [stored_run ''hi'' ''found it'' [JObj [(''event'', JStr ''RunContent'')]]])
      = Inr [user_entry ''hi'', assistant_msg ''found it'']"
    by (simp_all only: f)
  with a1 a2 b1 c1 d f show ?thesis
    by (intro conjI)
qed

section \<open>The live path: a completed tool call without metrics\<close>

text \<open>
  Claim C10. On the live path with the display of tool metadata on, a
  \<^verbatim>\<open>ToolCallCompleted\<close> event whose tool carries no metrics appends an entry whose
  content is exactly the literal about the execution time; the result of the tool is
  not part of it. (An empty entry for the content that follows is appended after it and
  the buffer is reset.)
\<close>

theorem completed_without_metrics:
  assumes "event c = tool_call_completed" and "tool c = Some t" and "metrics t = None"
    and "chat_history s \<noteq> []"
  shows "\<exists>h1. clear_placeholder (chat_history s) = Inr h1 \<and>
           chunk_step R ''ON'' s c =
             (\<lparr>chat_history = h1 @
                  [\<lparr>role = ''assistant'',
                    content = JStr ''**Execution time:** N/A\<newline>'',
                    metadata = Some ToolCallCompleted\<rparr>,
                   \<lparr>role = ''assistant'', content = JStr '''', metadata = None\<rparr>],
               stream_response = ''''\<rparr>,
              [busy (h1 @
                  [\<lparr>role = ''assistant'',
                    content = JStr ''**Execution time:** N/A\<newline>'',
                    metadata = Some ToolCallCompleted\<rparr>,
                   \<lparr>role = ''assistant'', content = JStr '''', metadata = None\<rparr>])],
              None)"
  using assms
  by (simp add: chunk_step_def clear_placeholder_nonempty live_completed_content_def Let_def
      assistant_msg_def)

theorem completed_without_metrics_witness:
  "event \<lparr>event = tool_call_completed, run_id = ''r1'',
          tool = Some \<lparr>tool_name = JStr ''search'', tool_args = JNull,
                       result = JStr ''found'', metrics = None\<rparr>,
          chunk_content = JNull\<rparr> = tool_call_completed
   \<and> chunk_step (\<lambda>v. '''') ''ON''
        \<lparr>chat_history = [user_entry ''hi'', assistant_msg placeholder], stream_response = ''''\<rparr>
        \<lparr>event = tool_call_completed, run_id = ''r1'',
          tool = Some \<lparr>tool_name = JStr ''search'', tool_args = JNull,
                       result = JStr ''found'', metrics = None\<rparr>,
          chunk_content = JNull\<rparr>
      = (\<lparr>chat_history =
            [user_entry ''hi'', assistant_msg '''',
             \<lparr>role = ''assistant'', content = JStr ''**Execution time:** N/A\<newline>'',
               metadata = Some ToolCallCompleted\<rparr>,
             assistant_msg ''''],
          stream_response = ''''\<rparr>,
         [busy [user_entry ''hi'', assistant_msg '''',
             \<lparr>role = ''assistant'', content = JStr ''**Execution time:** N/A\<newline>'',
               metadata = Some ToolCallCompleted\<rparr>,
             assistant_msg '''']],
         None)"
  using completed_without_metrics
    [of "\<lparr>event = tool_call_completed, run_id = ''r1'',
          tool = Some \<lparr>tool_name = JStr ''search'', tool_args = JNull,
                       result = JStr ''found'', metrics = None\<rparr>,
          chunk_content = JNull\<rparr>"
        "\<lparr>tool_name = JStr ''search'', tool_args = JNull,
                       result = JStr ''found'', metrics = None\<rparr>"
        "\<lparr>chat_history = [user_entry ''hi'', assistant_msg placeholder], stream_response = ''''\<rparr>"
        "\<lambda>v. ''''"]
  by (simp add: clear_placeholder_def set_last_def assistant_msg_def placeholder_def)

end
